theory Spec2Isabelle
  imports Main "HOL-Library.Multiset"
begin

section \<open>Strings\<close>

text \<open>
  A JavaScript string is a sequence of UTF-16 code units. A code unit is modelled as a
  natural number (below 65536 in every string the program can hold), so that
  \<open>length\<close>, \<open>take\<close> and \<open>drop\<close> count what \<open>.length\<close> and \<open>.substring\<close> count.
  \<open>js\<close> turns an ASCII literal of the source into its code units.
\<close>

type_synonym jsstring = "nat list"

definition js :: "string \<Rightarrow> jsstring" where
  "js s = map of_char s"

definition startsWith :: "jsstring \<Rightarrow> jsstring \<Rightarrow> bool" where
  "startsWith s p \<longleftrightarrow> take (length p) s = p"

definition endsWith :: "jsstring \<Rightarrow> jsstring \<Rightarrow> bool" where
  "endsWith s p \<longleftrightarrow> length p \<le> length s \<and> drop (length s - length p) s = p"

text \<open>\<open>s.includes(p)\<close>: \<open>p\<close> occurs in \<open>s\<close> at some position.\<close>

fun includes_str :: "jsstring \<Rightarrow> jsstring \<Rightarrow> bool" where
  "includes_str [] p = (p = [])"
| "includes_str (c # cs) p = (startsWith (c # cs) p \<or> includes_str cs p)"

text \<open>\<open>parts.join(sep)\<close>.\<close>

fun join :: "jsstring \<Rightarrow> jsstring list \<Rightarrow> jsstring" where
  "join sep [] = []"
| "join sep [x] = x"
| "join sep (x # y # ys) = x @ sep @ join sep (y # ys)"

text \<open>\<open>s.split(d)\<close> for a separator of one code unit: never the empty array.\<close>

fun split_on :: "nat \<Rightarrow> jsstring \<Rightarrow> jsstring list" where
  "split_on d [] = [[]]"
| "split_on d (c # cs) =
     (if c = d then [] # split_on d cs
      else (case split_on d cs of p # ps \<Rightarrow> (c # p) # ps | [] \<Rightarrow> [[c]]))"

text \<open>The decimal digits of a natural number; the first argument bounds their count.\<close>

fun show_digits :: "nat \<Rightarrow> nat \<Rightarrow> jsstring" where
  "show_digits 0 n = [48 + n mod 10]"
| "show_digits (Suc k) n =
     (if n < 10 then [48 + n] else show_digits k (n div 10) @ [48 + n mod 10])"

text \<open>A number has no more digits than its value, which bounds the recursion.\<close>

definition show_nat :: "nat \<Rightarrow> jsstring" where
  "show_nat n = show_digits n n"

definition show_int :: "int \<Rightarrow> jsstring" where
  "show_int i = (if i < 0 then 45 # show_nat (nat (- i)) else show_nat (nat i))"

text \<open>
  \<open>Number::toString\<close>, which a template literal and \<open>JSON.stringify\<close> apply to a number.
  The model's numbers are the decimal numbers \<open>m / 10^d\<close>. With \<open>s\<close> the digits of the
  number without trailing zeros, \<open>k\<close> their count and \<open>0.s * 10^n\<close> its magnitude, the text is
  the digits and \<open>n - k\<close> zeros when \<open>k \<le> n \<le> 21\<close>, has the point after \<open>n\<close> digits when
  \<open>0 < n \<le> 21\<close>, starts \<open>0.\<close> and \<open>-n\<close> zeros when \<open>-6 < n \<le> 0\<close>, and is in exponent
  notation otherwise. An integer below \<open>10^21\<close> is its digits.
\<close>

definition strip_zeros :: "jsstring \<Rightarrow> jsstring" where
  "strip_zeros s = rev (dropWhile (\<lambda>c. c = 48) (rev s))"

definition exponential :: "jsstring \<Rightarrow> int \<Rightarrow> jsstring" where
  "exponential s e =
     (case s of
        [] \<Rightarrow> []
      | c # cs \<Rightarrow>
          c # (if cs = [] then [] else 46 # cs) @ [101] @
          (if e < 0 then 45 # show_nat (nat (- e)) else 43 # show_nat (nat e)))"

definition digits_to_string :: "jsstring \<Rightarrow> int \<Rightarrow> jsstring" where
  "digits_to_string s n =
     (let k = int (length s)
      in if k \<le> n \<and> n \<le> 21 then s @ replicate (nat (n - k)) 48
         else if 0 < n \<and> n \<le> 21 then take (nat n) s @ [46] @ drop (nat n) s
         else if - 6 < n \<and> n \<le> 0 then [48, 46] @ replicate (nat (- n)) 48 @ s
         else exponential s (n - 1))"

definition int_to_string :: "int \<Rightarrow> jsstring" where
  "int_to_string i =
     (if \<bar>i\<bar> < 10 ^ 21 then show_int i
      else (if i < 0 then [45] else []) @
           exponential (strip_zeros (show_nat (nat \<bar>i\<bar>))) (int (length (show_nat (nat \<bar>i\<bar>))) - 1))"

text \<open>The text of \<open>m / 10^d\<close>, where \<open>0 < d\<close> and \<open>m\<close> is not a multiple of ten.\<close>

definition decimal_to_string :: "int \<Rightarrow> nat \<Rightarrow> jsstring" where
  "decimal_to_string m d =
     (if m < 0 then [45] else []) @
     digits_to_string (show_nat (nat \<bar>m\<bar>)) (int (length (show_nat (nat \<bar>m\<bar>))) - int d)"

definition is_digit :: "nat \<Rightarrow> bool" where
  "is_digit c \<longleftrightarrow> 48 \<le> c \<and> c \<le> 57"

text \<open>The value of a run of decimal digits (\<open>parseInt(ds, 10)\<close> on digits only).\<close>

definition digits_val :: "jsstring \<Rightarrow> nat" where
  "digits_val ds = foldl (\<lambda>a c. 10 * a + (c - 48)) 0 ds"

text \<open>
  \<open>String.prototype.trim\<close> removes the WhiteSpace and LineTerminator code units of
  ECMAScript from both ends.
\<close>

definition is_space :: "nat \<Rightarrow> bool" where
  "is_space c \<longleftrightarrow>
     (9 \<le> c \<and> c \<le> 13) \<or> c = 32 \<or> c = 160 \<or> c = 5760 \<or> (8192 \<le> c \<and> c \<le> 8202) \<or>
     c = 8232 \<or> c = 8233 \<or> c = 8239 \<or> c = 8287 \<or> c = 12288 \<or> c = 65279"

definition trim :: "jsstring \<Rightarrow> jsstring" where
  "trim s = rev (dropWhile is_space (rev (dropWhile is_space s)))"

text \<open>A string in a boolean position: \<open>undefined\<close>, \<open>null\<close> and \<open>''\<close> are falsy.\<close>

definition truthy :: "jsstring option \<Rightarrow> bool" where
  "truthy v \<longleftrightarrow> (case v of None \<Rightarrow> False | Some s \<Rightarrow> s \<noteq> [])"

section \<open>JSON values and \<open>JSON.parse\<close>\<close>

text \<open>
  The value \<open>JSON.parse\<close> returns. A number is the decimal number its literal denotes:
  \<open>JNumber i\<close> when that is the integer \<open>i\<close> (so \<open>3\<close>, \<open>3.0\<close> and \<open>30e-1\<close> are the same
  value), \<open>JDecimal m d\<close> for \<open>m / 10^d\<close> otherwise, with \<open>0 < d\<close> and \<open>m\<close> no multiple of
  ten. JavaScript rounds the number to binary64: it is the number of the model when the
  literal has at most 15 significant digits and a magnitude between \<open>1e-307\<close> and
  \<open>1e308\<close>, and every integer up to \<open>2^53\<close> is. An object is the list of its own properties
  in property order.
\<close>

datatype json =
    JNull
  | JBool bool
  | JNumber int
  | JDecimal int nat
  | JString jsstring
  | JArray "json list"
  | JObject "(jsstring \<times> json) list"

definition MAX_SAFE_INTEGER :: nat where
  "MAX_SAFE_INTEGER = 9007199254740991"

subsection \<open>Objects: property order\<close>

text \<open>
  An array index is the canonical decimal string of an integer below \<open>2^32 - 1\<close>. The own
  properties of an ordinary object are kept with the array indices first, ascending, and
  then the other string keys in the order of their creation; setting a property that
  exists replaces its value where it is.
\<close>

definition is_array_index :: "jsstring \<Rightarrow> bool" where
  "is_array_index k \<longleftrightarrow>
     k \<noteq> [] \<and> list_all is_digit k \<and> (length k = 1 \<or> hd k \<noteq> 48) \<and> length k \<le> 10 \<and>
     digits_val k < 4294967295"

fun obj_replace :: "jsstring \<Rightarrow> json \<Rightarrow> (jsstring \<times> json) list \<Rightarrow> (jsstring \<times> json) list" where
  "obj_replace k v [] = []"
| "obj_replace k v ((k', v') # kvs) =
     (if k' = k then (k, v) # kvs else (k', v') # obj_replace k v kvs)"

fun obj_insert_index :: "jsstring \<Rightarrow> json \<Rightarrow> (jsstring \<times> json) list \<Rightarrow> (jsstring \<times> json) list" where
  "obj_insert_index k v [] = [(k, v)]"
| "obj_insert_index k v ((k', v') # kvs) =
     (if is_array_index k' \<and> digits_val k' < digits_val k
      then (k', v') # obj_insert_index k v kvs
      else (k, v) # (k', v') # kvs)"

definition obj_set :: "jsstring \<Rightarrow> json \<Rightarrow> (jsstring \<times> json) list \<Rightarrow> (jsstring \<times> json) list" where
  "obj_set k v kvs =
     (if k \<in> set (map fst kvs) then obj_replace k v kvs
      else if is_array_index k then obj_insert_index k v kvs
      else kvs @ [(k, v)])"

definition mk_object :: "(jsstring \<times> json) list \<Rightarrow> (jsstring \<times> json) list" where
  "mk_object members = foldl (\<lambda>obj (k, v). obj_set k v obj) [] members"

text \<open>\<open>v[k]\<close> on a value read from JSON: the own property of an object.\<close>

definition get_prop :: "json \<Rightarrow> jsstring \<Rightarrow> json option" where
  "get_prop v k = (case v of JObject kvs \<Rightarrow> map_of kvs k | _ \<Rightarrow> None)"

subsection \<open>The grammar\<close>

definition is_json_ws :: "nat \<Rightarrow> bool" where
  "is_json_ws c \<longleftrightarrow> c = 32 \<or> c = 9 \<or> c = 10 \<or> c = 13"

definition skip_ws :: "jsstring \<Rightarrow> jsstring" where
  "skip_ws s = dropWhile is_json_ws s"

definition hex_val :: "nat \<Rightarrow> nat option" where
  "hex_val c =
     (if 48 \<le> c \<and> c \<le> 57 then Some (c - 48)
      else if 97 \<le> c \<and> c \<le> 102 then Some (c - 87)
      else if 65 \<le> c \<and> c \<le> 70 then Some (c - 55)
      else None)"

definition hex4 :: "nat \<Rightarrow> nat \<Rightarrow> nat \<Rightarrow> nat \<Rightarrow> nat option" where
  "hex4 a b c d =
     (case hex_val a of None \<Rightarrow> None | Some x \<Rightarrow>
      case hex_val b of None \<Rightarrow> None | Some y \<Rightarrow>
      case hex_val c of None \<Rightarrow> None | Some z \<Rightarrow>
      case hex_val d of None \<Rightarrow> None | Some u \<Rightarrow>
        Some (((x * 16 + y) * 16 + z) * 16 + u))"

text \<open>The one-letter escapes: quote, backslash, slash, b, f, n, r, t.\<close>

definition unescape :: "nat \<Rightarrow> nat option" where
  "unescape e =
     (if e = 34 then Some 34 else if e = 92 then Some 92 else if e = 47 then Some 47
      else if e = 98 then Some 8 else if e = 102 then Some 12 else if e = 110 then Some 10
      else if e = 114 then Some 13 else if e = 116 then Some 9 else None)"

definition cons_char :: "nat \<Rightarrow> (jsstring \<times> jsstring) option \<Rightarrow> (jsstring \<times> jsstring) option" where
  "cons_char c r = (case r of None \<Rightarrow> None | Some (s, rest) \<Rightarrow> Some (c # s, rest))"

text \<open>A string after its opening quote: the decoded string and the text after the closing
  quote. A control character (below U+0020) must be escaped.\<close>

fun parse_string_body :: "jsstring \<Rightarrow> (jsstring \<times> jsstring) option"
and parse_escape :: "jsstring \<Rightarrow> (jsstring \<times> jsstring) option" where
  "parse_string_body [] = None"
| "parse_string_body (c # cs) =
     (if c = 34 then Some ([], cs)
      else if c = 92 then parse_escape cs
      else if c < 32 then None
      else cons_char c (parse_string_body cs))"
| "parse_escape [] = None"
| "parse_escape (e # cs) =
     (if e = 117 then
        (case cs of
           h1 # h2 # h3 # h4 # rest \<Rightarrow>
             (case hex4 h1 h2 h3 h4 of None \<Rightarrow> None
              | Some u \<Rightarrow> cons_char u (parse_string_body rest))
         | _ \<Rightarrow> None)
      else (case unescape e of None \<Rightarrow> None
            | Some ch \<Rightarrow> cons_char ch (parse_string_body cs)))"

text \<open>Numbers: \<open>-? (0 | [1-9][0-9]*) (. [0-9]+)? ([eE] [+-]? [0-9]+)?\<close>.\<close>

definition scan_int :: "jsstring \<Rightarrow> (jsstring \<times> jsstring) option" where
  "scan_int s =
     (case s of
        [] \<Rightarrow> None
      | c # cs \<Rightarrow>
          if c = 48 then Some ([c], cs)
          else if is_digit c then Some (takeWhile is_digit s, dropWhile is_digit s)
          else None)"

definition scan_frac :: "jsstring \<Rightarrow> (jsstring \<times> jsstring) option" where
  "scan_frac s =
     (case s of
        [] \<Rightarrow> Some ([], s)
      | c # cs \<Rightarrow>
          if c = 46 then
            (if takeWhile is_digit cs = [] then None
             else Some (c # takeWhile is_digit cs, dropWhile is_digit cs))
          else Some ([], s))"

definition scan_exp :: "jsstring \<Rightarrow> (jsstring \<times> jsstring) option" where
  "scan_exp s =
     (case s of
        [] \<Rightarrow> Some ([], s)
      | c # cs \<Rightarrow>
          if c = 101 \<or> c = 69 then
            (let sgn = (case cs of d # _ \<Rightarrow> if d = 43 \<or> d = 45 then [d] else [] | [] \<Rightarrow> []);
                 ds = drop (length sgn) cs
             in if takeWhile is_digit ds = [] then None
                else Some (c # sgn @ takeWhile is_digit ds, dropWhile is_digit ds))
          else Some ([], s))"

text \<open>The number of a literal with a fraction or an exponent: the digits \<open>m\<close> of the
  integer part and the fraction, times ten to \<open>e\<close>, the exponent less the length of the
  fraction.\<close>

fun normal_decimal :: "int \<Rightarrow> nat \<Rightarrow> json" where
  "normal_decimal m 0 = JNumber m"
| "normal_decimal m (Suc d) =
     (if m mod 10 = 0 then normal_decimal (m div 10) d else JDecimal m (Suc d))"

definition decimal :: "int \<Rightarrow> int \<Rightarrow> json" where
  "decimal m e = (if 0 \<le> e then JNumber (m * 10 ^ nat e) else normal_decimal m (nat (- e)))"

text \<open>The value of the exponent part \<open>e\<close>, sign, digits (nothing: zero).\<close>

definition exponent_val :: "jsstring \<Rightarrow> int" where
  "exponent_val ex =
     (case ex of
        [] \<Rightarrow> 0
      | e # r \<Rightarrow>
          (case r of
             [] \<Rightarrow> 0
           | c # ds \<Rightarrow>
               if c = 45 then - int (digits_val ds)
               else if c = 43 then int (digits_val ds)
               else int (digits_val r)))"

definition parse_number :: "jsstring \<Rightarrow> (json \<times> jsstring) option" where
  "parse_number s =
     (let neg = (case s of c # _ \<Rightarrow> c = 45 | [] \<Rightarrow> False);
          s1 = (if neg then tl s else s)
      in case scan_int s1 of None \<Rightarrow> None
         | Some (ds, s2) \<Rightarrow>
             (case scan_frac s2 of None \<Rightarrow> None
              | Some (fr, s3) \<Rightarrow>
                  (case scan_exp s3 of None \<Rightarrow> None
                   | Some (ex, s4) \<Rightarrow>
                       if fr = [] \<and> ex = []
                       then Some (JNumber (if neg then - int (digits_val ds)
                                           else int (digits_val ds)), s4)
                       else Some (decimal
                                    (if neg then - int (digits_val (ds @ tl fr))
                                     else int (digits_val (ds @ tl fr)))
                                    (exponent_val ex - int (length (tl fr))), s4))))"

definition parse_keyword :: "jsstring \<Rightarrow> (json \<times> jsstring) option" where
  "parse_keyword s =
     (if startsWith s (js ''null'') then Some (JNull, drop 4 s)
      else if startsWith s (js ''true'') then Some (JBool True, drop 4 s)
      else if startsWith s (js ''false'') then Some (JBool False, drop 5 s)
      else None)"

text \<open>
  Values, the elements of an array after its bracket, and the members of an object after
  its brace. The first argument bounds the depth of the calls. The text of a value is
  longer than the calls that read it are deep (the bracket, the separators and the
  elements each take a code unit), so \<open>JSON_parse\<close> below starts with the length of the
  text and one more; that this is enough is proved below for every serialized value.
\<close>

fun parse_value :: "nat \<Rightarrow> jsstring \<Rightarrow> (json \<times> jsstring) option"
and parse_elements :: "nat \<Rightarrow> jsstring \<Rightarrow> (json list \<times> jsstring) option"
and parse_members :: "nat \<Rightarrow> jsstring \<Rightarrow> ((jsstring \<times> json) list \<times> jsstring) option" where
  "parse_value 0 s = None"
| "parse_value (Suc n) s =
     (case skip_ws s of
        [] \<Rightarrow> None
      | c # cs \<Rightarrow>
          if c = 91 then
            (case skip_ws cs of
               [] \<Rightarrow> None
             | d # ds \<Rightarrow>
                 if d = 93 then Some (JArray [], ds)
                 else (case parse_elements n cs of None \<Rightarrow> None
                       | Some (vs, rest) \<Rightarrow> Some (JArray vs, rest)))
          else if c = 123 then
            (case skip_ws cs of
               [] \<Rightarrow> None
             | d # ds \<Rightarrow>
                 if d = 125 then Some (JObject [], ds)
                 else (case parse_members n cs of None \<Rightarrow> None
                       | Some (kvs, rest) \<Rightarrow> Some (JObject (mk_object kvs), rest)))
          else if c = 34 then
            (case parse_string_body cs of None \<Rightarrow> None
             | Some (str, rest) \<Rightarrow> Some (JString str, rest))
          else if c = 45 \<or> is_digit c then parse_number (c # cs)
          else parse_keyword (c # cs))"
| "parse_elements 0 s = None"
| "parse_elements (Suc n) s =
     (case parse_value n s of
        None \<Rightarrow> None
      | Some (v, rest) \<Rightarrow>
          (case skip_ws rest of
             [] \<Rightarrow> None
           | c # cs \<Rightarrow>
               if c = 44 then
                 (case parse_elements n cs of None \<Rightarrow> None
                  | Some (vs, rest') \<Rightarrow> Some (v # vs, rest'))
               else if c = 93 then Some ([v], cs)
               else None))"
| "parse_members 0 s = None"
| "parse_members (Suc n) s =
     (case skip_ws s of
        [] \<Rightarrow> None
      | q # s1 \<Rightarrow>
          if q \<noteq> 34 then None
          else
            (case parse_string_body s1 of
               None \<Rightarrow> None
             | Some (k, s2) \<Rightarrow>
                 (case skip_ws s2 of
                    [] \<Rightarrow> None
                  | colon # s3 \<Rightarrow>
                      if colon \<noteq> 58 then None
                      else
                        (case parse_value n s3 of
                           None \<Rightarrow> None
                         | Some (v, s4) \<Rightarrow>
                             (case skip_ws s4 of
                                [] \<Rightarrow> None
                              | c # cs \<Rightarrow>
                                  if c = 44 then
                                    (case parse_members n cs of None \<Rightarrow> None
                                     | Some (kvs, rest) \<Rightarrow> Some ((k, v) # kvs, rest))
                                  else if c = 125 then Some ([(k, v)], cs)
                                  else None)))))"

text \<open>\<open>JSON.parse(text)\<close>: \<open>None\<close> is the SyntaxError it throws.\<close>

definition JSON_parse :: "jsstring \<Rightarrow> json option" where
  "JSON_parse s =
     (case parse_value (Suc (length s)) s of
        None \<Rightarrow> None
      | Some (v, rest) \<Rightarrow> if skip_ws rest = [] then Some v else None)"

section \<open>Values at run time\<close>

text \<open>
  TypeScript erases the declared types: what the command holds at run time are the values
  \<open>JSON.parse\<close> returned, and a property that is absent reads as \<open>undefined\<close> (\<open>None\<close>).

  \<open>ToString\<close>, which a template literal and a property access \<open>o[v]\<close> apply to a value:
  an array is its elements joined with commas (\<open>null\<close> printing as nothing); an object
  is \<open>[object Object]\<close>, unless it has an own property \<open>toString\<close>, which read from JSON
  is no function: then the conversion throws a TypeError, which is \<open>None\<close> here.
\<close>

fun to_string :: "json \<Rightarrow> jsstring option"
and join_elements :: "json list \<Rightarrow> jsstring option" where
  "to_string JNull = Some (js ''null'')"
| "to_string (JBool b) = Some (if b then js ''true'' else js ''false'')"
| "to_string (JNumber i) = Some (int_to_string i)"
| "to_string (JDecimal m d) = Some (decimal_to_string m d)"
| "to_string (JString s) = Some s"
| "to_string (JArray xs) = join_elements xs"
| "to_string (JObject kvs) =
     (if js ''toString'' \<in> set (map fst kvs) then None else Some (js ''[object Object]''))"
| "join_elements [] = Some []"
| "join_elements (x # xs) =
     (case (if x = JNull then Some [] else to_string x) of
        None \<Rightarrow> None
      | Some s \<Rightarrow>
          if xs = [] then Some s
          else (case join_elements xs of None \<Rightarrow> None | Some t \<Rightarrow> Some (s @ 44 # t)))"

text \<open>\<open>`${v}`\<close> for a property \<open>v\<close> that may be absent.\<close>

definition template :: "json option \<Rightarrow> jsstring option" where
  "template v = (case v of None \<Rightarrow> Some (js ''undefined'') | Some x \<Rightarrow> to_string x)"

text \<open>\<open>f[k] = v\<close> on an object (every finding is one: the normalizer builds it with a
  spread).\<close>

definition set_prop :: "json \<Rightarrow> jsstring \<Rightarrow> json \<Rightarrow> json" where
  "set_prop f k v = (case f of JObject kvs \<Rightarrow> JObject (obj_set k v kvs) | _ \<Rightarrow> f)"

text \<open>
  The object literals \<open>SEVERITY_ORDER\<close>, \<open>SEVERITY_COLORS\<close> and \<open>SEVERITY_LABELS\<close> inherit
  from \<open>Object.prototype\<close>: looked up with one of these keys they give a function (for
  \<open>__proto__\<close> the prototype object), not \<open>undefined\<close>.
\<close>

definition object_prototype_keys :: "jsstring list" where
  "object_prototype_keys =
     [js ''constructor'', js ''__defineGetter__'', js ''__defineSetter__'',
      js ''hasOwnProperty'', js ''__lookupGetter__'', js ''__lookupSetter__'',
      js ''isPrototypeOf'', js ''propertyIsEnumerable'', js ''toString'', js ''valueOf'',
      js ''__proto__'', js ''toLocaleString'']"

text \<open>Such a member in a template literal: the text of a native function, of the
  prototype object \<open>[object Object]\<close>.\<close>

definition inherited_member_text :: "jsstring \<Rightarrow> jsstring" where
  "inherited_member_text k =
     (if k = js ''__proto__'' then js ''[object Object]''
      else js ''function '' @ (if k = js ''constructor'' then js ''Object'' else k) @
           js ''() { [native code] }'')"

text \<open>
  Such a member called as \<open>color(text)\<close>, with no receiver: \<open>Object(text)\<close>,
  \<open>isPrototypeOf(text)\<close> and \<open>toString(text)\<close> return; the others convert the missing
  receiver to an object and throw, and the prototype object is no function.
\<close>

definition inherited_call_returns :: "jsstring \<Rightarrow> bool" where
  "inherited_call_returns k \<longleftrightarrow>
     k = js ''constructor'' \<or> k = js ''isPrototypeOf'' \<or> k = js ''toString''"

section \<open>Data model (src/lib/types.ts)\<close>

datatype severity = critical | warning | suggestion

text \<open>
  \<open>ReviewFinding\<close> as it is declared: \<open>approved: boolean | null\<close> is \<open>bool option\<close> with
  \<open>None\<close> for \<open>null\<close>; the optional \<open>posted?: boolean\<close> is \<open>bool option\<close> with \<open>None\<close> for
  an absent property. The field \<open>id\<close> is named \<open>id_n\<close> and \<open>file\<close> is named \<open>file_path\<close>
  (\<open>id\<close> and \<open>file\<close> are taken in Isabelle). Numbers are integers.
\<close>

record ReviewFinding =
  id_n :: int
  severity :: severity
  confidence :: int
  title :: jsstring
  file_path :: jsstring
  line :: int
  why :: jsstring
  body :: jsstring
  approved :: "bool option"
  posted :: "bool option"

text \<open>
  \<open>ReviewFile\<close>. Its findings are the objects the command holds, which nothing has
  checked against \<open>ReviewFinding\<close>.
\<close>

record ReviewFile =
  pr :: int
  repo :: jsstring
  baseBranch :: jsstring
  headSha :: jsstring
  reviewedAt :: jsstring
  summary :: jsstring
  findings :: "json list"

section \<open>The finding normalizer (\<open>reviewWithAI\<close>, src/lib/anthropic.ts)\<close>

datatype js_error = Error jsstring

datatype content_block = TextBlock jsstring | OtherBlock

text \<open>What \<open>client.messages.create\<close> does: it throws, or returns content blocks.\<close>

datatype api_reply = ApiThrows jsstring | ApiContent "content_block list"

text \<open>\<open>response.content.find((b) => b.type === 'text')\<close>\<close>

fun find_text :: "content_block list \<Rightarrow> jsstring option" where
  "find_text [] = None"
| "find_text (TextBlock t # bs) = Some t"
| "find_text (OtherBlock # bs) = find_text bs"

text \<open>\<open>jsonStr.replace(/^```(?:json)?\n?/, '')\<close> on a string that starts with the fence.\<close>

definition strip_open_fence :: "jsstring \<Rightarrow> jsstring" where
  "strip_open_fence s =
     (let s1 = drop 3 s;
          s2 = (if startsWith s1 (js ''json'') then drop 4 s1 else s1)
      in case s2 of c # cs \<Rightarrow> if c = 10 then cs else s2 | [] \<Rightarrow> s2)"

text \<open>\<open>.replace(/\n?```$/, '')\<close>: the leftmost match ends at the end of the string.\<close>

definition strip_close_fence :: "jsstring \<Rightarrow> jsstring" where
  "strip_close_fence s =
     (if endsWith s (10 # js ''```'') then take (length s - 4) s
      else if endsWith s (js ''```'') then take (length s - 3) s
      else s)"

text \<open>
  \<open>{ ...f, approved: null }\<close>: the own enumerable properties of \<open>f\<close> (of an object its
  properties, of an array and of a string the indices, of any other value none), and
  then \<open>approved\<close> set to \<open>null\<close>.
\<close>

fun spread :: "json \<Rightarrow> (jsstring \<times> json) list" where
  "spread (JObject kvs) = kvs"
| "spread (JArray xs) = zip (map show_nat [0..<length xs]) xs"
| "spread (JString s) = zip (map show_nat [0..<length s]) (map (\<lambda>c. JString [c]) s)"
| "spread _ = []"

definition with_approved_null :: "json \<Rightarrow> json" where
  "with_approved_null f = JObject (obj_set (js ''approved'') JNull (spread f))"

text \<open>Lines 38 to 58 of \<open>reviewWithAI\<close>, from the text of the response.\<close>

definition unfence :: "jsstring \<Rightarrow> jsstring" where
  "unfence rawText =
     (if startsWith rawText (js ''```'')
      then strip_close_fence (strip_open_fence rawText) else rawText)"

definition normalize :: "jsstring \<Rightarrow> js_error + json list" where
  "normalize text =
     (let rawText = trim text;
          jsonStr = unfence rawText
      in case JSON_parse jsonStr of
           None \<Rightarrow> Inl (Error (js ''Failed to parse AI response as JSON:'' @ [10] @ take 500 rawText))
         | Some (JArray arr) \<Rightarrow> Inr (map with_approved_null arr)
         | Some _ \<Rightarrow> Inl (Error (js ''AI response is not an array of findings'')))"

definition reviewWithAI :: "api_reply \<Rightarrow> js_error + json list" where
  "reviewWithAI reply =
     (case reply of
        ApiThrows msg \<Rightarrow> Inl (Error msg)
      | ApiContent blocks \<Rightarrow>
          (case find_text blocks of
             None \<Rightarrow> Inl (Error (js ''No text response from Anthropic API''))
           | Some t \<Rightarrow> normalize t))"

subsection \<open>The declared type of the result\<close>

text \<open>
  \<open>reviewWithAI\<close> is declared to return \<open>ReviewFinding[]\<close>; TypeScript does not check the
  parsed value against it, and the command goes on with whatever the array holds.
  \<open>as_ReviewFinding\<close> reads a JSON value as a \<open>ReviewFinding\<close> when it is one: the fields \<open>id\<close>, \<open>severity\<close>, \<open>confidence\<close>, \<open>title\<close>, \<open>file\<close>,
  \<open>line\<close>, \<open>why\<close> and \<open>body\<close> present with their declared types (the numbers being
  integers), \<open>approved\<close> and \<open>posted\<close> of their types when present.
\<close>

definition as_int :: "json option \<Rightarrow> int option" where
  "as_int v = (case v of Some (JNumber i) \<Rightarrow> Some i | _ \<Rightarrow> None)"

definition as_string :: "json option \<Rightarrow> jsstring option" where
  "as_string v = (case v of Some (JString s) \<Rightarrow> Some s | _ \<Rightarrow> None)"

definition as_severity :: "json option \<Rightarrow> severity option" where
  "as_severity v =
     (case as_string v of
        None \<Rightarrow> None
      | Some s \<Rightarrow>
          if s = js ''critical'' then Some critical
          else if s = js ''warning'' then Some warning
          else if s = js ''suggestion'' then Some suggestion
          else None)"

text \<open>\<open>approved\<close> is unknown when it is \<open>null\<close> and when it is absent (the generator is
  not asked for it; the normalizer adds it).\<close>

definition as_approved :: "json option \<Rightarrow> bool option option" where
  "as_approved v =
     (case v of None \<Rightarrow> Some None | Some JNull \<Rightarrow> Some None
      | Some (JBool b) \<Rightarrow> Some (Some b) | _ \<Rightarrow> None)"

definition as_posted :: "json option \<Rightarrow> bool option option" where
  "as_posted v =
     (case v of None \<Rightarrow> Some None | Some (JBool b) \<Rightarrow> Some (Some b) | _ \<Rightarrow> None)"

definition as_ReviewFinding :: "json \<Rightarrow> ReviewFinding option" where
  "as_ReviewFinding v =
     Option.bind (as_int (get_prop v (js ''id''))) (\<lambda>i.
     Option.bind (as_severity (get_prop v (js ''severity''))) (\<lambda>sev.
     Option.bind (as_int (get_prop v (js ''confidence''))) (\<lambda>conf.
     Option.bind (as_string (get_prop v (js ''title''))) (\<lambda>t.
     Option.bind (as_string (get_prop v (js ''file''))) (\<lambda>fl.
     Option.bind (as_int (get_prop v (js ''line''))) (\<lambda>ln.
     Option.bind (as_string (get_prop v (js ''why''))) (\<lambda>wh.
     Option.bind (as_string (get_prop v (js ''body''))) (\<lambda>bd.
     Option.bind (as_approved (get_prop v (js ''approved''))) (\<lambda>ap.
     Option.bind (as_posted (get_prop v (js ''posted''))) (\<lambda>po.
       Some \<lparr> id_n = i, severity = sev, confidence = conf, title = t, file_path = fl,
              line = ln, why = wh, body = bd, approved = ap, posted = po \<rparr>))))))))))"

fun cast_findings :: "json list \<Rightarrow> ReviewFinding list option" where
  "cast_findings [] = Some []"
| "cast_findings (v # vs) =
     (case as_ReviewFinding v of
        None \<Rightarrow> None
      | Some f \<Rightarrow> (case cast_findings vs of None \<Rightarrow> None | Some fs \<Rightarrow> Some (f # fs)))"

section \<open>\<open>JSON.stringify\<close> and the shape of a finding\<close>

text \<open>
  The serializer the round-trip property of the specification speaks of:
  \<open>JSON.stringify(value)\<close> without indentation. A string is quoted with the two-character
  escapes for backspace, tab, line feed, form feed, carriage return, quote and backslash,
  with \<open>\uXXXX\<close> (lower-case digits) for the other control characters and for a surrogate
  that is not half of a pair, and as it is otherwise.
\<close>

definition hex_digit :: "nat \<Rightarrow> nat" where
  "hex_digit d = (if d < 10 then 48 + d else 87 + d)"

definition unicode_escape :: "nat \<Rightarrow> jsstring" where
  "unicode_escape c =
     [92, 117, hex_digit (c div 4096 mod 16), hex_digit (c div 256 mod 16),
      hex_digit (c div 16 mod 16), hex_digit (c mod 16)]"

definition is_lead :: "nat \<Rightarrow> bool" where
  "is_lead c \<longleftrightarrow> 55296 \<le> c \<and> c \<le> 56319"

definition is_trail :: "nat \<Rightarrow> bool" where
  "is_trail c \<longleftrightarrow> 56320 \<le> c \<and> c \<le> 57343"

definition quote_unit :: "nat \<Rightarrow> jsstring" where
  "quote_unit c =
     (if c = 8 then [92, 98] else if c = 9 then [92, 116] else if c = 10 then [92, 110]
      else if c = 12 then [92, 102] else if c = 13 then [92, 114]
      else if c = 34 then [92, 34] else if c = 92 then [92, 92]
      else if c < 32 \<or> is_lead c \<or> is_trail c then unicode_escape c
      else [c])"

fun quote_units :: "jsstring \<Rightarrow> jsstring" where
  "quote_units [] = []"
| "quote_units [c] = quote_unit c"
| "quote_units (c # d # cs) =
     (if is_lead c \<and> is_trail d then c # d # quote_units cs
      else quote_unit c @ quote_units (d # cs))"

definition quote :: "jsstring \<Rightarrow> jsstring" where
  "quote s = 34 # quote_units s @ [34]"

fun JSON_stringify :: "json \<Rightarrow> jsstring" where
  "JSON_stringify JNull = js ''null''"
| "JSON_stringify (JBool b) = (if b then js ''true'' else js ''false'')"
| "JSON_stringify (JNumber i) = int_to_string i"
| "JSON_stringify (JDecimal m d) = decimal_to_string m d"
| "JSON_stringify (JString s) = quote s"
| "JSON_stringify (JArray xs) = [91] @ join [44] (map JSON_stringify xs) @ [93]"
| "JSON_stringify (JObject kvs) =
     [123] @ join [44] (map (\<lambda>(k, v). quote k @ [58] @ JSON_stringify v) kvs) @ [125]"

text \<open>
  The values \<open>JSON.stringify\<close> writes and \<open>JSON.parse\<close> reads back as they are: numbers
  are safe integers, and the properties of an object are in property order with no key
  twice (building an object from them gives them back).
\<close>

fun wf_json :: "json \<Rightarrow> bool" where
  "wf_json JNull = True"
| "wf_json (JBool b) = True"
| "wf_json (JNumber i) = (\<bar>i\<bar> \<le> int MAX_SAFE_INTEGER)"
| "wf_json (JDecimal m d) = False"
| "wf_json (JString s) = True"
| "wf_json (JArray xs) = list_all wf_json xs"
| "wf_json (JObject kvs) = (mk_object kvs = kvs \<and> list_all (\<lambda>(k, v). wf_json v) kvs)"

subsection \<open>Reading the serialized text\<close>

text \<open>What may follow a value: the end of the text, a comma, a closing bracket or brace.\<close>

definition delim :: "jsstring \<Rightarrow> bool" where
  "delim rest \<longleftrightarrow> (case rest of [] \<Rightarrow> True | c # _ \<Rightarrow> c = 44 \<or> c = 93 \<or> c = 125)"

text \<open>The first code unit of a serialized value starts a value.\<close>

definition value_start :: "nat \<Rightarrow> bool" where
  "value_start c \<longleftrightarrow> \<not> is_json_ws c \<and> c \<noteq> 93 \<and> c \<noteq> 125 \<and> c \<noteq> 44"

text \<open>The text of one member of an object: the quoted key, a colon, the value.\<close>

definition member_text :: "jsstring \<times> json \<Rightarrow> jsstring" where
  "member_text kv = quote (fst kv) @ [58] @ JSON_stringify (snd kv)"

text \<open>A valid Finding-shaped object: such a value that reads as a \<open>ReviewFinding\<close>.\<close>

definition finding_shaped :: "json \<Rightarrow> bool" where
  "finding_shaped v \<longleftrightarrow> wf_json v \<and> as_ReviewFinding v \<noteq> None"

text \<open>The markdown code fence a model may wrap its answer in: with or without the
  \<open>json\<close> tag, with or without a line break after the opening and before the closing
  fence.\<close>

definition code_fence :: "bool \<Rightarrow> bool \<Rightarrow> bool \<Rightarrow> jsstring \<Rightarrow> jsstring" where
  "code_fence tag nl1 nl2 s =
     js ''```'' @ (if tag then js ''json'' else []) @ (if nl1 then [10] else []) @ s @
     (if nl2 then [10] else []) @ js ''```''"

section \<open>Severity order and sorting (src/commands/review.ts)\<close>

text \<open>
  \<open>const SEVERITY_ORDER: Record<string, number> = { critical: 0, warning: 1, suggestion: 2 }\<close>
\<close>

definition SEVERITY_ORDER :: "jsstring \<rightharpoonup> int" where
  "SEVERITY_ORDER = [js ''critical'' \<mapsto> 0, js ''warning'' \<mapsto> 1, js ''suggestion'' \<mapsto> 2]"

text \<open>
  \<open>SEVERITY_ORDER[f.severity] ?? 99\<close> as a number: the rank of the three names, 99 for a
  key the object does not have, and \<open>None\<close> for a key it inherits, a function that makes
  the difference of the comparator \<open>NaN\<close> (and for a severity whose conversion to a key
  throws, which ends the sort: see \<open>sort_findings\<close>).
\<close>

definition order_of :: "json \<Rightarrow> int option" where
  "order_of f =
     (case template (get_prop f (js ''severity'')) of
        None \<Rightarrow> None
      | Some k \<Rightarrow>
          (case SEVERITY_ORDER k of
             Some n \<Rightarrow> Some n
           | None \<Rightarrow> if k \<in> set object_prototype_keys then None else Some 99))"

text \<open>The comparator of both sorts:
  \<open>(a, b) => (SEVERITY_ORDER[a.severity] ?? 99) - (SEVERITY_ORDER[b.severity] ?? 99)\<close>;
  \<open>sort\<close> reads a result \<open>NaN\<close> as \<open>+0\<close>.\<close>

definition severity_cmp :: "json \<Rightarrow> json \<Rightarrow> int" where
  "severity_cmp a b =
     (case order_of a of
        None \<Rightarrow> 0
      | Some x \<Rightarrow> (case order_of b of None \<Rightarrow> 0 | Some y \<Rightarrow> x - y))"

text \<open>
  \<open>Array.prototype.sort(comparefn)\<close> is a stable sort (ECMAScript 2019, Node 11 and
  later). With a comparator that is a consistent ordering, as \<open>severity_cmp\<close> is on
  findings whose rank is a number, every stable sort returns the same array; it is
  modelled by insertion from the right, where an element is put before the first later
  element that compares greater or equal and so stays before its equals. (With a rank
  that is \<open>NaN\<close> the comparator is no ordering and the standard leaves the order to the
  implementation; the model then has the order of this insertion.)
\<close>

fun sort_insert :: "('a \<Rightarrow> 'a \<Rightarrow> int) \<Rightarrow> 'a \<Rightarrow> 'a list \<Rightarrow> 'a list" where
  "sort_insert cmp x [] = [x]"
| "sort_insert cmp x (y # ys) =
     (if cmp x y \<le> 0 then x # y # ys else y # sort_insert cmp x ys)"

definition array_sort :: "('a \<Rightarrow> 'a \<Rightarrow> int) \<Rightarrow> 'a list \<Rightarrow> 'a list" where
  "array_sort cmp xs = foldr (sort_insert cmp) xs []"

definition sort_by_severity :: "json list \<Rightarrow> json list" where
  "sort_by_severity fs = array_sort severity_cmp fs"

text \<open>
  The sort as a step of the command. The comparator is called on every element of an
  array of two or more; a severity whose conversion to a property key throws ends the
  sort, and the command, with that TypeError (\<open>None\<close>).
\<close>

definition sort_findings :: "json list \<Rightarrow> json list option" where
  "sort_findings fs =
     (if 2 \<le> length fs \<and> \<not> list_all (\<lambda>f. template (get_prop f (js ''severity'')) \<noteq> None) fs
      then None else Some (sort_by_severity fs))"

text \<open>The three severities of the specification among the values of the property.\<close>

definition has_severity :: "string \<Rightarrow> json \<Rightarrow> bool" where
  "has_severity name f \<longleftrightarrow> get_prop f (js ''severity'') = Some (JString (js name))"

section \<open>GitHub delivery (src/lib/github.ts)\<close>

text \<open>\<open>SEVERITY_LABELS\<close>: a coloured circle (a surrogate pair) and the bold tag.\<close>

definition SEVERITY_LABELS :: "jsstring \<rightharpoonup> jsstring" where
  "SEVERITY_LABELS =
     [js ''critical'' \<mapsto> [55357, 56628] @ js '' **[Critical]**'',
      js ''warning'' \<mapsto> [55357, 57313] @ js '' **[Warning]**'',
      js ''suggestion'' \<mapsto> [55357, 56629] @ js '' **[Suggestion]**'']"

text \<open>\<open>`${SEVERITY_LABELS[finding.severity] || finding.severity}`\<close>, from the key the
  severity converts to: the label, the inherited member, or the severity itself.\<close>

definition label_text :: "jsstring \<Rightarrow> jsstring" where
  "label_text k =
     (case SEVERITY_LABELS k of
        Some l \<Rightarrow> l
      | None \<Rightarrow> if k \<in> set object_prototype_keys then inherited_member_text k else k)"

text \<open>\<open>formatCommentBody\<close>; \<open>None\<close> when one of the conversions throws.\<close>

definition formatCommentBody :: "json \<Rightarrow> jsstring option" where
  "formatCommentBody finding =
     Option.bind (template (get_prop finding (js ''severity''))) (\<lambda>k.
     Option.bind (template (get_prop finding (js ''title''))) (\<lambda>t.
     Option.bind (template (get_prop finding (js ''confidence''))) (\<lambda>c.
     Option.bind (template (get_prop finding (js ''body''))) (\<lambda>b.
       Some (label_text k @ js '' '' @ t @ js '' (Confidence: '' @ c @ js ''/100)'' @
             [10, 10] @ b)))))"

text \<open>\<open>s.charAt(0).toUpperCase() + s.slice(1)\<close> on a string. The upper case is that of
  the ASCII letters, in which the three severities are written; the Unicode mapping of
  the other code units is not modelled.\<close>

definition capitalize :: "jsstring \<Rightarrow> jsstring" where
  "capitalize s =
     (case s of [] \<Rightarrow> [] | c # cs \<Rightarrow> (if 97 \<le> c \<and> c \<le> 122 then c - 32 else c) # cs)"

text \<open>A row of the summary table. \<open>f.severity.charAt\<close> throws unless the severity is a
  string.\<close>

definition summary_row :: "json \<Rightarrow> jsstring option" where
  "summary_row f =
     (case get_prop f (js ''severity'') of
        Some (JString s) \<Rightarrow>
          Option.bind (template (get_prop f (js ''id''))) (\<lambda>i.
          Option.bind (template (get_prop f (js ''file''))) (\<lambda>fl.
          Option.bind (template (get_prop f (js ''line''))) (\<lambda>ln.
          Option.bind (template (get_prop f (js ''title''))) (\<lambda>t.
          Option.bind (template (get_prop f (js ''confidence''))) (\<lambda>c.
            Some (js ''| '' @ i @ js '' | '' @ capitalize s @ js '' | `'' @ fl @ js '':'' @
                  ln @ js ''` | '' @ t @ js '' | '' @ c @ js ''/100 |''))))))
      | _ \<Rightarrow> None)"

definition formatSummaryBody :: "ReviewFile \<Rightarrow> json list \<Rightarrow> jsstring option" where
  "formatSummaryBody review approvedFindings =
     (let lines = [js ''## Code Review Summary'', [], summary review, []]
      in if approvedFindings = []
         then Some (join [10] (lines @ [js ''No issues to report. Looks good!'']))
         else (case those (map summary_row approvedFindings) of
                 None \<Rightarrow> None
               | Some rows \<Rightarrow>
                   Some (join [10]
                     (lines @
                      [js ''| # | Severity | File | Issue | Confidence |'',
                       js ''|---|----------|------|-------|------------|''] @
                      rows @
                      [[], js ''See inline comments for details.'']))))"

text \<open>An inline comment of the review payload: path, line, side, body.\<close>

datatype inline_comment = InlineComment "json option" "json option" jsstring jsstring

text \<open>The payload of the review: event, body, comments.\<close>

datatype review_payload = ReviewPayload jsstring jsstring "inline_comment list"

definition inline_comment_of :: "json \<Rightarrow> inline_comment option" where
  "inline_comment_of f =
     map_option
       (InlineComment (get_prop f (js ''file'')) (get_prop f (js ''line'')) (js ''RIGHT''))
       (formatCommentBody f)"

text \<open>\<open>comments\<close> and \<open>payload\<close>, built before the \<open>try\<close>: a conversion that throws there
  leaves \<open>postReview\<close> before any command has run.\<close>

definition review_payload_of :: "ReviewFile \<Rightarrow> json list \<Rightarrow> review_payload option" where
  "review_payload_of review approvedFindings =
     (case those (map inline_comment_of approvedFindings) of
        None \<Rightarrow> None
      | Some comments \<Rightarrow>
          map_option (\<lambda>b. ReviewPayload (js ''COMMENT'') b comments)
            (formatSummaryBody review approvedFindings))"

text \<open>The body of a flat comment of the fallback:
  \<open>formatCommentBody(f) + `\n\n> File: \`${f.file}:${f.line}\``\<close>.\<close>

definition fallbackCommentBody :: "json \<Rightarrow> jsstring option" where
  "fallbackCommentBody f =
     Option.bind (formatCommentBody f) (\<lambda>b.
     Option.bind (template (get_prop f (js ''file''))) (\<lambda>fl.
     Option.bind (template (get_prop f (js ''line''))) (\<lambda>ln.
       Some (b @ [10, 10] @ js ''> File: `'' @ fl @ js '':'' @ ln @ js ''`''))))"

text \<open>
  The two commands that change the pull request on the host:
  \<open>gh api repos/<owner>/<repo>/pulls/<pr>/reviews --method POST --input -\<close> with the
  payload on its input, and \<open>gh pr comment <pr> --repo <owner>/<repo> --body <body>\<close>
  (the body is what the program puts on the command line; what the shell makes of it is
  not modelled).
\<close>

datatype host_call =
    gh_api_create_review jsstring jsstring int review_payload
  | gh_pr_comment int jsstring jsstring jsstring

text \<open>The commands that only read: \<open>gh auth status\<close>, \<open>gh pr view\<close>, \<open>gh pr list\<close>,
  \<open>git remote get-url origin\<close>, \<open>git fetch\<close>, \<open>git diff\<close>, \<open>git diff --stat\<close>.\<close>

datatype host_query =
    gh_auth_status
  | gh_pr_view_current
  | gh_pr_view int
  | gh_pr_list int
  | git_remote_get_url
  | git_fetch_pr int
  | git_diff jsstring int
  | git_diff_stat jsstring int

text \<open>The prompts: \<open>SelectAction\<close> is the prompt of a finding, \<open>InputComment\<close> the input
  prompt of an edit with its default, the body of the finding.\<close>

datatype prompt =
    ConfirmDetected int
  | SelectPR "int list"
  | SelectAction json
  | InputComment "json option"
  | ConfirmPost nat int

text \<open>
  What a run does to the outside, in order. \<open>HostWrite\<close> carries the reply: \<open>None\<close> when
  the command succeeded, the message of the error \<open>execSync\<close> threw otherwise.
  \<open>Generate\<close> is the one call of the generation capability, with the guidelines, the diff
  and the changed-files summary it is given. Console output is not recorded.
\<close>

datatype event =
    HostRead host_query
  | Prompt prompt
  | Generate jsstring jsstring jsstring
  | Mkdir jsstring
  | WriteFile jsstring ReviewFile
  | HostWrite host_call "jsstring option"

fun host_mutating :: "event \<Rightarrow> bool" where
  "host_mutating (HostWrite c r) = True"
| "host_mutating _ = False"

fun is_generation :: "event \<Rightarrow> bool" where
  "is_generation (Generate g d c) = True"
| "is_generation _ = False"

text \<open>
  How a run ends: a return from the command's action (exit code 0) at one of its return
  statements, \<open>process.exit(1)\<close> at one of its calls, or an exception nobody catches (the
  promise of the action is rejected and the process dies with a non-zero status).
\<close>

datatype terminal =
    NothingToReview | NoIssues | Reported | NothingApproved | Cancelled | Posted

datatype fatal =
    MissingApiKey | GhCliUnavailable | CannotParsePR | NoOpenPRs | AIReviewFailed jsstring
  | CannotDetermineRepo | PostingFailed jsstring

datatype outcome = Exit0 terminal | Exit1 fatal | Uncaught

type_synonym 'a run = "event list \<times> (outcome + 'a)"

definition bind_run :: "'a run \<Rightarrow> ('a \<Rightarrow> 'b run) \<Rightarrow> 'b run" where
  "bind_run m k =
     (case m of
        (es, Inl out) \<Rightarrow> (es, Inl out)
      | (es, Inr a) \<Rightarrow> (case k a of (es', r) \<Rightarrow> (es @ es', r)))"

definition return_run :: "'a \<Rightarrow> 'a run" where
  "return_run a = ([], Inr a)"

definition stop_run :: "outcome \<Rightarrow> 'a run" where
  "stop_run out = ([], Inl out)"

definition do_event :: "event \<Rightarrow> unit run" where
  "do_event e = ([e], Inr ())"

section \<open>The world of one invocation\<close>

record PRInfo =
  number :: int
  info_title :: jsstring
  state :: jsstring
  headRefName :: jsstring
  baseRefName :: jsstring
  headRefOid :: jsstring
  url :: jsstring

text \<open>What \<open>resolvePR\<close> returns: \<open>{ number, baseBranch, headSha, repo }\<close>.\<close>

record PullRequest =
  pr_number :: int
  pr_baseBranch :: jsstring
  pr_headSha :: jsstring
  pr_repo :: jsstring

text \<open>The operator's answer to the prompt of one finding; \<open>edit\<close> carries what was typed
  at the input prompt that follows.\<close>

datatype action = approve | skip | edit jsstring

text \<open>
  Everything the command reads from outside: the configuration, the command line, the
  files, the clock, the replies of \<open>gh\<close> and \<open>git\<close> (\<open>None\<close> where the command fails), the
  reply of the generation call, and the operator's answers. The operator's answer to the
  prompt of the \<open>k\<close>-th finding is \<open>w_action k\<close>; the reply to the \<open>k\<close>-th
  \<open>gh pr comment\<close> is \<open>w_comment_ok k\<close>.
\<close>

record world =
  w_anthropicApiKey :: "jsstring option"
  w_githubRepo :: "jsstring option"
  w_guidelinesPath :: "jsstring option"
  w_prArg :: "jsstring option"
  w_post :: bool
  w_cwd :: jsstring
  w_files :: "jsstring \<rightharpoonup> jsstring"
  w_now :: jsstring
  w_write_ok :: bool
  w_gh_auth_ok :: bool
  w_pr_view_current :: "PRInfo option"
  w_pr_view :: "int \<Rightarrow> PRInfo option"
  w_pr_list :: "PRInfo list option"
  w_git_repo :: "jsstring option"
  w_git_diff :: "jsstring option"
  w_git_diff_stat :: "jsstring option"
  w_ai_reply :: api_reply
  w_confirm_detected :: bool
  w_select_pr :: int
  w_action :: "nat \<Rightarrow> action"
  w_confirm_post :: bool
  w_review_reply :: "jsstring option"
  w_comment_ok :: "nat \<Rightarrow> bool"

subsection \<open>\<open>postReview\<close>\<close>

definition comment_reply :: "world \<Rightarrow> nat \<Rightarrow> jsstring option" where
  "comment_reply w k = (if w_comment_ok w k then None else Some (js ''Command failed''))"

text \<open>The best-effort loop of the fallback: \<open>try { execSync(gh pr comment) } catch { }\<close>
  for each approved finding in turn; \<open>k\<close> counts the comment commands issued so far. The
  body of the comment is built outside the \<open>try\<close>.\<close>

fun post_comments :: "world \<Rightarrow> int \<Rightarrow> jsstring \<Rightarrow> jsstring \<Rightarrow> nat \<Rightarrow> json list \<Rightarrow> unit run" where
  "post_comments w n owner rp k [] = return_run ()"
| "post_comments w n owner rp k (f # fs) =
     (case fallbackCommentBody f of
        None \<Rightarrow> stop_run Uncaught
      | Some b \<Rightarrow>
          bind_run (do_event (HostWrite (gh_pr_comment n owner rp b) (comment_reply w k)))
            (\<lambda>_. post_comments w n owner rp (Suc k) fs))"

text \<open>The signature of the host's anchor-validation error.\<close>

definition anchor_failure :: "jsstring \<Rightarrow> bool" where
  "anchor_failure msg \<longleftrightarrow>
     includes_str msg (js ''pull_request_review_thread'') \<or> includes_str msg (js ''Validation Failed'')"

text \<open>\<open>const [owner, repo] = review.repo.split('/')\<close>; a missing second part prints as
  \<open>undefined\<close> in the command line.\<close>

definition repo_owner :: "ReviewFile \<Rightarrow> jsstring" where
  "repo_owner review =
     (case split_on 47 (repo review) of p # _ \<Rightarrow> p | [] \<Rightarrow> js ''undefined'')"

definition repo_name :: "ReviewFile \<Rightarrow> jsstring" where
  "repo_name review =
     (case split_on 47 (repo review) of _ # q # _ \<Rightarrow> q | _ \<Rightarrow> js ''undefined'')"

text \<open>The host calls a trace attempts, in order.\<close>

fun attempted :: "event list \<Rightarrow> host_call list" where
  "attempted [] = []"
| "attempted (HostWrite c r # es) = c # attempted es"
| "attempted (e # es) = attempted es"

definition postReview :: "world \<Rightarrow> ReviewFile \<Rightarrow> json list \<Rightarrow> unit run" where
  "postReview w review approvedFindings =
     (let owner = repo_owner review;
          rp = repo_name review
      in case review_payload_of review approvedFindings of
           None \<Rightarrow> stop_run Uncaught
         | Some payload \<Rightarrow>
             bind_run
               (do_event (HostWrite (gh_api_create_review owner rp (pr review) payload)
                            (w_review_reply w)))
               (\<lambda>_. case w_review_reply w of
                      None \<Rightarrow> return_run ()
                    | Some msg \<Rightarrow>
                        if anchor_failure msg then
                          (case formatSummaryBody review approvedFindings of
                             None \<Rightarrow> stop_run Uncaught
                           | Some summaryBody \<Rightarrow>
                               bind_run
                                 (do_event (HostWrite
                                    (gh_pr_comment (pr review) owner rp summaryBody)
                                    (comment_reply w 0)))
                                 (\<lambda>_. post_comments w (pr review) owner rp 1 approvedFindings))
                        else stop_run (Exit1 (PostingFailed msg))))"

section \<open>The review command (src/commands/review.ts)\<close>

definition loadGuidelines :: "world \<Rightarrow> jsstring" where
  "loadGuidelines w =
     (let paths = (if truthy (w_guidelinesPath w) then [the (w_guidelinesPath w)] else []) @
                  [js ''CLAUDE.md'', js ''.claude/CLAUDE.md'', js ''CODING_GUIDELINES.md'']
      in case List.find (\<lambda>p. w_files w p \<noteq> None) paths of
           Some p \<Rightarrow> the (w_files w p)
         | None \<Rightarrow> js ''No project-specific guidelines provided. Use general TypeScript/React best practices.'')"

text \<open>\<open>detectRepoFromGit() || ''\<close>\<close>

definition detectRepo :: "world \<Rightarrow> jsstring run" where
  "detectRepo w =
     ([HostRead git_remote_get_url], Inr (case w_git_repo w of Some r \<Rightarrow> r | None \<Rightarrow> []))"

text \<open>\<open>getPRInfo\<close> lets the error of \<open>execSync\<close> through.\<close>

definition getPRInfo :: "world \<Rightarrow> int \<Rightarrow> PRInfo run" where
  "getPRInfo w n =
     ([HostRead (gh_pr_view n)],
      case w_pr_view w n of None \<Rightarrow> Inl Uncaught | Some info \<Rightarrow> Inr info)"

text \<open>\<open>prArg.match(/(\d+)/)\<close>: the first run of digits. \<open>parseInt\<close> gives their value (the
  number itself up to \<open>2^53\<close>, beyond which JavaScript rounds it).\<close>

definition first_digits :: "jsstring \<Rightarrow> jsstring" where
  "first_digits s = takeWhile is_digit (dropWhile (\<lambda>c. \<not> is_digit c) s)"

definition resolve_by_number :: "world \<Rightarrow> int \<Rightarrow> PullRequest run" where
  "resolve_by_number w n =
     bind_run (getPRInfo w n) (\<lambda>info.
     bind_run (detectRepo w) (\<lambda>r.
       return_run \<lparr> pr_number = n, pr_baseBranch = baseRefName info,
                    pr_headSha = headRefOid info, pr_repo = r \<rparr>))"

definition resolve_by_list :: "world \<Rightarrow> PullRequest run" where
  "resolve_by_list w =
     bind_run (do_event (HostRead (gh_pr_list 15))) (\<lambda>_.
       let prs = (case w_pr_list w of None \<Rightarrow> [] | Some l \<Rightarrow> l)
       in if prs = [] then stop_run (Exit1 NoOpenPRs)
          else bind_run (do_event (Prompt (SelectPR (map number prs)))) (\<lambda>_.
                 resolve_by_number w (w_select_pr w)))"

definition resolvePR :: "world \<Rightarrow> PullRequest run" where
  "resolvePR w =
     bind_run (do_event (HostRead gh_auth_status)) (\<lambda>_.
       if \<not> w_gh_auth_ok w then stop_run (Exit1 GhCliUnavailable)
       else if truthy (w_prArg w) then
         (let ds = first_digits (the (w_prArg w))
          in if ds = [] then stop_run (Exit1 CannotParsePR)
             else resolve_by_number w (int (digits_val ds)))
       else
         bind_run (do_event (HostRead gh_pr_view_current)) (\<lambda>_.
           case w_pr_view_current w of
             None \<Rightarrow> resolve_by_list w
           | Some detected \<Rightarrow>
               bind_run (do_event (Prompt (ConfirmDetected (number detected)))) (\<lambda>_.
                 if w_confirm_detected w then
                   bind_run (detectRepo w) (\<lambda>r.
                     return_run \<lparr> pr_number = number detected,
                                  pr_baseBranch = baseRefName detected,
                                  pr_headSha = headRefOid detected, pr_repo = r \<rparr>)
                 else resolve_by_list w)))"

text \<open>\<open>getPRDiff\<close> (the fetch never fails: \<open>|| true\<close>) and \<open>getChangedFiles\<close>.\<close>

definition getPRDiff :: "world \<Rightarrow> int \<Rightarrow> jsstring \<Rightarrow> jsstring run" where
  "getPRDiff w n base =
     ([HostRead (git_fetch_pr n), HostRead (git_diff base n)],
      case w_git_diff w of None \<Rightarrow> Inl Uncaught | Some d \<Rightarrow> Inr d)"

definition getChangedFiles :: "world \<Rightarrow> int \<Rightarrow> jsstring \<Rightarrow> jsstring run" where
  "getChangedFiles w n base =
     ([HostRead (git_diff_stat base n)],
      case w_git_diff_stat w of None \<Rightarrow> Inl Uncaught | Some d \<Rightarrow> Inr d)"

text \<open>Phase 2: the generation call and the normalizer. The findings are what the
  normalizer returned.\<close>

definition analyze :: "world \<Rightarrow> jsstring \<Rightarrow> jsstring \<Rightarrow> jsstring \<Rightarrow> json list run" where
  "analyze w diff guidelines changedFiles =
     ([Generate guidelines diff changedFiles],
      case reviewWithAI (w_ai_reply w) of
        Inl (Error msg) \<Rightarrow> Inl (Exit1 (AIReviewFailed msg))
      | Inr vs \<Rightarrow> Inr vs)"

subsection \<open>\<open>printFindings\<close>\<close>

text \<open>
  The tag of a finding, \<open>color(`[${f.severity.charAt(0).toUpperCase() + f.severity.slice(1)}]`)\<close>
  with \<open>color = SEVERITY_COLORS[f.severity] || chalk.white\<close>: \<open>charAt\<close> is a function of
  strings only, and a colour inherited from \<open>Object.prototype\<close> may throw when it is
  called. \<open>has_tag\<close> tells that the tag is built without a TypeError.
\<close>

definition has_tag :: "json \<Rightarrow> bool" where
  "has_tag f \<longleftrightarrow>
     (case get_prop f (js ''severity'') of
        Some (JString s) \<Rightarrow> s \<in> set object_prototype_keys \<longrightarrow> inherited_call_returns s
      | _ \<Rightarrow> False)"

text \<open>The lines of a finding in \<open>printFindings\<close> print the tag and the properties
  \<open>id\<close>, \<open>title\<close>, \<open>confidence\<close>, \<open>file\<close>, \<open>line\<close> and \<open>why\<close>.\<close>

definition printable :: "json \<Rightarrow> bool" where
  "printable f \<longleftrightarrow>
     has_tag f \<and>
     list_all (\<lambda>k. template (get_prop f k) \<noteq> None)
       [js ''id'', js ''title'', js ''confidence'', js ''file'', js ''line'', js ''why'']"

text \<open>\<open>printFindings\<close> sorts a copy and prints it; all it does to the run is to throw, or
  not.\<close>

definition printFindings :: "json list \<Rightarrow> unit run" where
  "printFindings fs =
     (case sort_findings fs of
        None \<Rightarrow> stop_run Uncaught
      | Some sorted_fs \<Rightarrow>
          if list_all printable sorted_fs then return_run () else stop_run Uncaught)"

subsection \<open>\<open>interactiveApproval\<close>\<close>

text \<open>The message of the prompt of a finding holds the tag and the properties \<open>id\<close>,
  \<open>title\<close>, \<open>file\<close> and \<open>line\<close>.\<close>

definition promptable :: "json \<Rightarrow> bool" where
  "promptable f \<longleftrightarrow>
     has_tag f \<and>
     list_all (\<lambda>k. template (get_prop f k) \<noteq> None)
       [js ''id'', js ''title'', js ''file'', js ''line'']"

text \<open>What the input prompt returns: what was typed, its default when nothing was (the
  empty string when there is no default).\<close>

definition input_answer :: "jsstring \<Rightarrow> json option \<Rightarrow> json" where
  "input_answer typed dflt =
     (if typed \<noteq> [] then JString typed
      else (case dflt of None \<Rightarrow> JString [] | Some v \<Rightarrow> v))"

text \<open>The finding after the operator's answer: \<open>f.approved = true\<close>,
  \<open>f.approved = false\<close>, or \<open>f.body = newBody; f.approved = true\<close>.\<close>

definition decided :: "action \<Rightarrow> json \<Rightarrow> json" where
  "decided a f =
     (case a of
        approve \<Rightarrow> set_prop f (js ''approved'') (JBool True)
      | skip \<Rightarrow> set_prop f (js ''approved'') (JBool False)
      | edit typed \<Rightarrow>
          set_prop (set_prop f (js ''body'') (input_answer typed (get_prop f (js ''body''))))
            (js ''approved'') (JBool True))"

definition decide :: "world \<Rightarrow> nat \<Rightarrow> json \<Rightarrow> json run" where
  "decide w k f =
     (if \<not> promptable f then stop_run Uncaught
      else
        ((case w_action w k of
            edit typed \<Rightarrow>
              [Prompt (SelectAction f), Prompt (InputComment (get_prop f (js ''body'')))]
          | _ \<Rightarrow> [Prompt (SelectAction f)]),
         Inr (decided (w_action w k) f)))"

fun approval_loop :: "world \<Rightarrow> nat \<Rightarrow> json list \<Rightarrow> json list run" where
  "approval_loop w k [] = return_run []"
| "approval_loop w k (f # fs) =
     bind_run (decide w k f) (\<lambda>f'.
     bind_run (approval_loop w (Suc k) fs) (\<lambda>fs'.
       return_run (f' # fs')))"

definition interactiveApproval :: "world \<Rightarrow> json list \<Rightarrow> json list run" where
  "interactiveApproval w fs = approval_loop w 0 fs"

subsection \<open>The command\<close>

text \<open>\<open>findings.filter((f) => f.severity === 'critical').length\<close>\<close>

definition count_severity :: "string \<Rightarrow> json list \<Rightarrow> nat" where
  "count_severity name fs = length (filter (has_severity name) fs)"

definition summary_line :: "nat \<Rightarrow> nat \<Rightarrow> nat \<Rightarrow> nat \<Rightarrow> jsstring" where
  "summary_line n criticals warnings suggestions =
     js ''Found '' @ show_nat n @ js '' issues ('' @
     show_nat criticals @ js '' critical, '' @
     show_nat warnings @ js '' warning, '' @
     show_nat suggestions @ js '' suggestion)''"

definition maxDiffChars :: nat where
  "maxDiffChars = 100000"

definition truncate_diff :: "jsstring \<Rightarrow> jsstring" where
  "truncate_diff diff =
     (if length diff > maxDiffChars
      then take maxDiffChars diff @ [10, 10] @ js ''... (diff truncated due to size)''
      else diff)"

text \<open>\<open>join(process.cwd(), '.coder', 'reviews')\<close> and the file in it,
  \<open>`pr-${pr.number}-review.json`\<close>.\<close>

definition reviewsDir :: "world \<Rightarrow> jsstring" where
  "reviewsDir w = w_cwd w @ js ''/.coder/reviews''"

definition reviewPath :: "world \<Rightarrow> int \<Rightarrow> jsstring" where
  "reviewPath w n = reviewsDir w @ js ''/pr-'' @ int_to_string n @ js ''-review.json''"

text \<open>\<open>mkdirSync\<close> and \<open>writeFileSync\<close>; an error of the file system is not caught.\<close>

definition save_review :: "world \<Rightarrow> PullRequest \<Rightarrow> ReviewFile \<Rightarrow> unit run" where
  "save_review w p reviewFile =
     (if w_write_ok w
      then ([Mkdir (reviewsDir w), WriteFile (reviewPath w (pr_number p)) reviewFile], Inr ())
      else ([Mkdir (reviewsDir w)], Inl Uncaught))"

text \<open>\<open>pr.repo || config.githubRepo || detectRepoFromGit() || ''\<close>\<close>

definition determine_repo :: "world \<Rightarrow> PullRequest \<Rightarrow> jsstring run" where
  "determine_repo w p =
     (if pr_repo p \<noteq> [] then return_run (pr_repo p)
      else if truthy (w_githubRepo w) then return_run (the (w_githubRepo w))
      else detectRepo w)"

text \<open>
  The \<open>ReviewFile\<close> object: the counts of the summary are taken after the sort, the
  length and the findings after the approval session.
\<close>

definition make_review_file ::
  "world \<Rightarrow> PullRequest \<Rightarrow> jsstring \<Rightarrow> json list \<Rightarrow> json list \<Rightarrow> ReviewFile" where
  "make_review_file w p r sorted_fs fs =
     \<lparr> pr = pr_number p, repo = r, baseBranch = pr_baseBranch p,
       headSha = pr_headSha p, reviewedAt = w_now w,
       summary =
         summary_line (length fs) (count_severity ''critical'' sorted_fs)
           (count_severity ''warning'' sorted_fs) (count_severity ''suggestion'' sorted_fs),
       findings = fs \<rparr>"

text \<open>\<open>findings.filter((f) => f.approved === true)\<close>\<close>

definition approved_of :: "json list \<Rightarrow> json list" where
  "approved_of fs = filter (\<lambda>f. get_prop f (js ''approved'') = Some (JBool True)) fs"

text \<open>Phase 3 and the posting, from the sorted findings.\<close>

definition approve_and_post :: "world \<Rightarrow> PullRequest \<Rightarrow> json list \<Rightarrow> outcome run" where
  "approve_and_post w p sorted_fs =
     bind_run (interactiveApproval w sorted_fs) (\<lambda>fs.
       let approvedFindings = approved_of fs
       in if approvedFindings = [] then stop_run (Exit0 NothingApproved)
          else
            bind_run (printFindings approvedFindings) (\<lambda>_.
            bind_run (do_event (Prompt (ConfirmPost (length approvedFindings) (pr_number p)))) (\<lambda>_.
              if \<not> w_confirm_post w then stop_run (Exit0 Cancelled)
              else
                bind_run (determine_repo w p) (\<lambda>r.
                  if r = [] then stop_run (Exit1 CannotDetermineRepo)
                  else
                    (let reviewFile = make_review_file w p r sorted_fs fs
                     in bind_run (save_review w p reviewFile) (\<lambda>_.
                        bind_run (postReview w reviewFile approvedFindings) (\<lambda>_.
                          stop_run (Exit0 Posted))))))))"

text \<open>From the resolved pull request on: phases 1 and 2 and the report.\<close>

definition review_pr :: "world \<Rightarrow> PullRequest \<Rightarrow> outcome run" where
  "review_pr w p =
     (let guidelines = loadGuidelines w
      in bind_run (getPRDiff w (pr_number p) (pr_baseBranch p)) (\<lambda>diff.
         bind_run (getChangedFiles w (pr_number p) (pr_baseBranch p)) (\<lambda>changedFiles.
           if trim diff = [] then stop_run (Exit0 NothingToReview)
           else
             bind_run (analyze w (truncate_diff diff) guidelines changedFiles) (\<lambda>fs.
               if fs = [] then stop_run (Exit0 NoIssues)
               else
                 (case sort_findings fs of
                    None \<Rightarrow> stop_run Uncaught
                  | Some sorted_fs \<Rightarrow>
                      bind_run (printFindings sorted_fs) (\<lambda>_.
                        if \<not> w_post w then stop_run (Exit0 Reported)
                        else approve_and_post w p sorted_fs))))))"

definition finish :: "outcome run \<Rightarrow> event list \<times> outcome" where
  "finish r = (case r of (es, Inl out) \<Rightarrow> (es, out) | (es, Inr out) \<Rightarrow> (es, out))"

definition review_command :: "world \<Rightarrow> event list \<times> outcome" where
  "review_command w =
     (if \<not> truthy (w_anthropicApiKey w) then ([], Exit1 MissingApiKey)
      else finish (bind_run (resolvePR w) (review_pr w)))"

section \<open>Reading a trace\<close>

text \<open>Events that change nothing: queries of the host and prompts.\<close>

fun read_only :: "event \<Rightarrow> bool" where
  "read_only (HostRead q) = True"
| "read_only (Prompt p) = True"
| "read_only _ = False"

text \<open>Events that change the local reviews directory.\<close>

fun touches_disk :: "event \<Rightarrow> bool" where
  "touches_disk (Mkdir d) = True"
| "touches_disk (WriteFile p rf) = True"
| "touches_disk _ = False"

text \<open>The write of the review record of pull request \<open>n\<close>: a record of that pull request,
  written to \<open>.coder/reviews/pr-<n>-review.json\<close> under the working directory.\<close>

definition is_review_record :: "world \<Rightarrow> int \<Rightarrow> event \<Rightarrow> bool" where
  "is_review_record w n e =
     (case e of
        WriteFile path rf \<Rightarrow>
          path = w_cwd w @ js ''/.coder/reviews/pr-'' @ int_to_string n @ js ''-review.json'' \<and>
          pr rf = n
      | _ \<Rightarrow> False)"

text \<open>A trace in which no host-mutating event comes before an event that satisfies \<open>P\<close>;
  \<open>written\<close> tells whether such an event has been seen.\<close>

fun guarded :: "(event \<Rightarrow> bool) \<Rightarrow> bool \<Rightarrow> event list \<Rightarrow> bool" where
  "guarded P written [] = True"
| "guarded P written (e # es) =
     (if host_mutating e then written \<and> guarded P written es
      else guarded P (written \<or> P e) es)"

text \<open>A host call that succeeded.\<close>

fun delivered :: "event \<Rightarrow> bool" where
  "delivered (HostWrite c None) = True"
| "delivered _ = False"

text \<open>
  The run of \<open>w\<close> gets to the report: the API key is set, the pull request resolves to
  \<open>p\<close>, the diff and the changed-files summary are fetched, the diff is not blank, the
  analysis returns the findings \<open>fs\<close>, at least one, and the report prints them (no
  TypeError in the sort and in \<open>printFindings\<close>, which is to say that every finding is
  printable).
\<close>

definition reaches_report :: "world \<Rightarrow> PullRequest \<Rightarrow> json list \<Rightarrow> bool" where
  "reaches_report w p fs \<longleftrightarrow>
     truthy (w_anthropicApiKey w) \<and> snd (resolvePR w) = Inr p \<and>
     (\<exists>d c. w_git_diff w = Some d \<and> w_git_diff_stat w = Some c \<and> trim d \<noteq> [] \<and>
        snd (analyze w (truncate_diff d) (loadGuidelines w) c) = Inr fs) \<and>
     fs \<noteq> [] \<and> list_all printable fs"

text \<open>The findings after the approval session on the sorted findings: the \<open>k\<close>-th
  finding prompted gets the operator's \<open>k\<close>-th answer.\<close>

fun decisions :: "world \<Rightarrow> nat \<Rightarrow> json list \<Rightarrow> json list" where
  "decisions w k [] = []"
| "decisions w k (f # fs) = decided (w_action w k) f # decisions w (Suc k) fs"

definition after_approval :: "world \<Rightarrow> json list \<Rightarrow> json list" where
  "after_approval w fs = decisions w 0 (sort_by_severity fs)"

section \<open>Concrete invocations\<close>

text \<open>
  The scenario of the specification: pull request 42, a diff of one changed line, and a
  generator that returns one critical finding. \<open>world0\<close> runs \<open>pm review 42 --post\<close>; the
  operator approves the finding and confirms, and the host accepts the review.
\<close>

definition finding1 :: ReviewFinding where
  "finding1 =
     \<lparr> id_n = 1, severity = critical, confidence = 95, title = js ''X'',
       file_path = js ''a.ts'', line = 3, why = js ''Y'', body = js ''Z'',
       approved = None, posted = None \<rparr>"

definition finding2 :: ReviewFinding where
  "finding2 =
     \<lparr> id_n = 2, severity = warning, confidence = 85, title = js ''T'',
       file_path = js ''b.ts'', line = 7, why = js ''W'', body = js ''B'',
       approved = None, posted = None \<rparr>"

definition response1 :: jsstring where
  "response1 =
     js ''[{\"id\":1,\"severity\":\"critical\",\"confidence\":95,\"title\":\"X\",\"file\":\"a.ts\",\"line\":3,\"why\":\"Y\",\"body\":\"Z\"}]''"

text \<open>A response outside the declared type: a severity that is none of the three, and a
  line written \<open>3.0\<close>.\<close>

definition response_info :: jsstring where
  "response_info =
     js ''[{\"id\":3,\"severity\":\"info\",\"confidence\":70,\"title\":\"N\",\"file\":\"c.ts\",\"line\":3.0,\"why\":\"V\",\"body\":\"C\"}]''"

text \<open>Two findings, the one of unknown severity first.\<close>

definition response2 :: jsstring where
  "response2 =
     js ''[{\"id\":3,\"severity\":\"info\",\"confidence\":70,\"title\":\"N\",\"file\":\"c.ts\",\"line\":3.0,\"why\":\"V\",\"body\":\"C\"},{\"id\":1,\"severity\":\"critical\",\"confidence\":95,\"title\":\"X\",\"file\":\"a.ts\",\"line\":3,\"why\":\"Y\",\"body\":\"Z\"}]''"

text \<open>The findings of the responses as the normalizer returns them, and what a model may
  emit for the first: \<open>approved\<close> set, \<open>approved\<close> absent.\<close>

definition object1_unknown :: json where
  "object1_unknown =
     JObject
       [(js ''id'', JNumber 1), (js ''severity'', JString (js ''critical'')),
        (js ''confidence'', JNumber 95), (js ''title'', JString (js ''X'')),
        (js ''file'', JString (js ''a.ts'')), (js ''line'', JNumber 3),
        (js ''why'', JString (js ''Y'')), (js ''body'', JString (js ''Z'')),
        (js ''approved'', JNull)]"

definition object1_approved :: json where
  "object1_approved =
     JObject
       [(js ''id'', JNumber 1), (js ''severity'', JString (js ''critical'')),
        (js ''confidence'', JNumber 95), (js ''title'', JString (js ''X'')),
        (js ''file'', JString (js ''a.ts'')), (js ''line'', JNumber 3),
        (js ''why'', JString (js ''Y'')), (js ''body'', JString (js ''Z'')),
        (js ''approved'', JBool True)]"

definition object2_plain :: json where
  "object2_plain =
     JObject
       [(js ''id'', JNumber 2), (js ''severity'', JString (js ''warning'')),
        (js ''confidence'', JNumber 85), (js ''title'', JString (js ''T'')),
        (js ''file'', JString (js ''b.ts'')), (js ''line'', JNumber 7),
        (js ''why'', JString (js ''W'')), (js ''body'', JString (js ''B''))]"

definition object2_unknown :: json where
  "object2_unknown =
     JObject
       [(js ''id'', JNumber 2), (js ''severity'', JString (js ''warning'')),
        (js ''confidence'', JNumber 85), (js ''title'', JString (js ''T'')),
        (js ''file'', JString (js ''b.ts'')), (js ''line'', JNumber 7),
        (js ''why'', JString (js ''W'')), (js ''body'', JString (js ''B'')),
        (js ''approved'', JNull)]"

definition object3_unknown :: json where
  "object3_unknown =
     JObject
       [(js ''id'', JNumber 3), (js ''severity'', JString (js ''info'')),
        (js ''confidence'', JNumber 70), (js ''title'', JString (js ''N'')),
        (js ''file'', JString (js ''c.ts'')), (js ''line'', JNumber 3),
        (js ''why'', JString (js ''V'')), (js ''body'', JString (js ''C'')),
        (js ''approved'', JNull)]"

text \<open>The findings after the operator's answers: approved, skipped, edited.\<close>

definition object1_true :: json where
  "object1_true =
     JObject
       [(js ''id'', JNumber 1), (js ''severity'', JString (js ''critical'')),
        (js ''confidence'', JNumber 95), (js ''title'', JString (js ''X'')),
        (js ''file'', JString (js ''a.ts'')), (js ''line'', JNumber 3),
        (js ''why'', JString (js ''Y'')), (js ''body'', JString (js ''Z'')),
        (js ''approved'', JBool True)]"

definition object1_skipped :: json where
  "object1_skipped =
     JObject
       [(js ''id'', JNumber 1), (js ''severity'', JString (js ''critical'')),
        (js ''confidence'', JNumber 95), (js ''title'', JString (js ''X'')),
        (js ''file'', JString (js ''a.ts'')), (js ''line'', JNumber 3),
        (js ''why'', JString (js ''Y'')), (js ''body'', JString (js ''Z'')),
        (js ''approved'', JBool False)]"

definition object3_true :: json where
  "object3_true =
     JObject
       [(js ''id'', JNumber 3), (js ''severity'', JString (js ''info'')),
        (js ''confidence'', JNumber 70), (js ''title'', JString (js ''N'')),
        (js ''file'', JString (js ''c.ts'')), (js ''line'', JNumber 3),
        (js ''why'', JString (js ''V'')), (js ''body'', JString (js ''C'')),
        (js ''approved'', JBool True)]"

definition object3_skipped :: json where
  "object3_skipped =
     JObject
       [(js ''id'', JNumber 3), (js ''severity'', JString (js ''info'')),
        (js ''confidence'', JNumber 70), (js ''title'', JString (js ''N'')),
        (js ''file'', JString (js ''c.ts'')), (js ''line'', JNumber 3),
        (js ''why'', JString (js ''V'')), (js ''body'', JString (js ''C'')),
        (js ''approved'', JBool False)]"

definition object3_edited :: json where
  "object3_edited =
     JObject
       [(js ''id'', JNumber 3), (js ''severity'', JString (js ''info'')),
        (js ''confidence'', JNumber 70), (js ''title'', JString (js ''N'')),
        (js ''file'', JString (js ''c.ts'')), (js ''line'', JNumber 3),
        (js ''why'', JString (js ''V'')), (js ''body'', JString (js ''E'')),
        (js ''approved'', JBool True)]"

definition info42 :: PRInfo where
  "info42 =
     \<lparr> number = 42, info_title = js ''Fix'', state = js ''OPEN'', headRefName = js ''fix'',
       baseRefName = js ''main'', headRefOid = js ''abc123'', url = js ''u'' \<rparr>"

definition world0 :: world where
  "world0 =
     \<lparr> w_anthropicApiKey = Some (js ''sk''), w_githubRepo = None, w_guidelinesPath = None,
       w_prArg = Some (js ''42''), w_post = True, w_cwd = js ''/p'', w_files = Map.empty,
       w_now = js ''2026-01-01T00:00:00.000Z'', w_write_ok = True, w_gh_auth_ok = True,
       w_pr_view_current = None, w_pr_view = (\<lambda>n. if n = 42 then Some info42 else None),
       w_pr_list = None, w_git_repo = Some (js ''o/r''), w_git_diff = Some (js ''+x''),
       w_git_diff_stat = Some (js ''a.ts | 1 +''),
       w_ai_reply = ApiContent [TextBlock response1],
       w_confirm_detected = True, w_select_pr = 42, w_action = (\<lambda>k. approve),
       w_confirm_post = True, w_review_reply = None, w_comment_ok = (\<lambda>k. True) \<rparr>"

definition review0 :: ReviewFile where
  "review0 =
     \<lparr> pr = 42, repo = js ''o/r'', baseBranch = js ''main'', headSha = js ''abc123'',
       reviewedAt = js ''2026-01-01T00:00:00.000Z'',
       summary = js ''Found 1 issues (1 critical, 0 warning, 0 suggestion)'',
       findings = [object1_true] \<rparr>"

definition pr42 :: PullRequest where
  "pr42 =
     \<lparr> pr_number = 42, pr_baseBranch = js ''main'', pr_headSha = js ''abc123'',
       pr_repo = js ''o/r'' \<rparr>"

text \<open>Variations of \<open>world0\<close>: the diff is blank; the host rejects the review with an
  anchor-validation error (in either of its two wordings) and then every flat comment;
  the host is down.\<close>

definition world_blank :: world where
  "world_blank = world0\<lparr>w_git_diff := Some [32, 10]\<rparr>"

definition world_anchor :: world where
  "world_anchor =
     world0\<lparr>w_review_reply := Some (js ''gh: Validation Failed (HTTP 422)''),
            w_comment_ok := (\<lambda>k. False)\<rparr>"

definition world_thread :: world where
  "world_thread =
     world0\<lparr>w_review_reply := Some (js ''gh: pull_request_review_thread.line must be part of the diff''),
            w_comment_ok := (\<lambda>k. False)\<rparr>"

definition world_down :: world where
  "world_down = world0\<lparr>w_review_reply := Some (js ''gh: HTTP 502'')\<rparr>"

text \<open>The generator answers with the finding of unknown severity: the operator approves
  it and the host is down; the operator skips it; the operator approves it and declines
  the confirmation.\<close>

definition world_info :: world where
  "world_info =
     world0\<lparr>w_ai_reply := ApiContent [TextBlock response_info],
            w_review_reply := Some (js ''gh: HTTP 502'')\<rparr>"

definition world_skip :: world where
  "world_skip = world_info\<lparr>w_action := (\<lambda>k. skip)\<rparr>"

definition world_cancel :: world where
  "world_cancel = world_info\<lparr>w_confirm_post := False\<rparr>"

text \<open>Two findings, the one of unknown severity first in the response; the operator
  skips the first finding prompted (the critical one, after the sort) and edits the body
  of the second.\<close>

definition world_two :: world where
  "world_two =
     world0\<lparr>w_ai_reply := ApiContent [TextBlock response2],
            w_action := (\<lambda>k. if k = 0 then skip else edit (js ''E''))\<rparr>"

definition review_two :: ReviewFile where
  "review_two =
     \<lparr> pr = 42, repo = js ''o/r'', baseBranch = js ''main'', headSha = js ''abc123'',
       reviewedAt = js ''2026-01-01T00:00:00.000Z'',
       summary = js ''Found 2 issues (1 critical, 0 warning, 0 suggestion)'',
       findings = [object1_skipped, object3_edited] \<rparr>"

text \<open>A response whose one record has a number for its severity.\<close>

definition response_number :: jsstring where
  "response_number = js ''[{\"id\":1,\"severity\":7}]''"

definition world_number :: world where
  "world_number = world0\<lparr>w_ai_reply := ApiContent [TextBlock response_number]\<rparr>"

text \<open>A response whose one record has an id only.\<close>

definition text_id_only :: jsstring where
  "text_id_only = js ''[{\"id\":1}]''"

text \<open>The texts of the delivery in these invocations: the inline comments, the flat
  comments of the fallback, the summaries and the payloads.\<close>

definition comment1 :: jsstring where
  "comment1 =
     [55357, 56628] @ js '' **[Critical]** X (Confidence: 95/100)'' @ [10, 10] @ js ''Z''"

definition comment3 :: jsstring where
  "comment3 = js ''info N (Confidence: 70/100)'' @ [10, 10] @ js ''E''"

definition flat1 :: jsstring where
  "flat1 = comment1 @ [10, 10] @ js ''> File: `a.ts:3`''"

definition flat3 :: jsstring where
  "flat3 = comment3 @ [10, 10] @ js ''> File: `c.ts:3`''"

definition summary0 :: jsstring where
  "summary0 =
     join [10]
       [js ''## Code Review Summary'', [],
        js ''Found 1 issues (1 critical, 0 warning, 0 suggestion)'', [],
        js ''| # | Severity | File | Issue | Confidence |'',
        js ''|---|----------|------|-------|------------|'',
        js ''| 1 | Critical | `a.ts:3` | X | 95/100 |'',
        [], js ''See inline comments for details.'']"

definition payload0 :: review_payload where
  "payload0 =
     ReviewPayload (js ''COMMENT'') summary0
       [InlineComment (Some (JString (js ''a.ts''))) (Some (JNumber 3)) (js ''RIGHT'') comment1]"

text \<open>A review with both findings approved, the second after an edit.\<close>

definition review_both :: ReviewFile where
  "review_both =
     \<lparr> pr = 42, repo = js ''o/r'', baseBranch = js ''main'', headSha = js ''abc123'',
       reviewedAt = js ''2026-01-01T00:00:00.000Z'',
       summary = js ''Found 2 issues (1 critical, 0 warning, 0 suggestion)'',
       findings = [object1_true, object3_edited] \<rparr>"

definition summary_both :: jsstring where
  "summary_both =
     join [10]
       [js ''## Code Review Summary'', [],
        js ''Found 2 issues (1 critical, 0 warning, 0 suggestion)'', [],
        js ''| # | Severity | File | Issue | Confidence |'',
        js ''|---|----------|------|-------|------------|'',
        js ''| 1 | Critical | `a.ts:3` | X | 95/100 |'',
        js ''| 3 | Info | `c.ts:3` | N | 70/100 |'',
        [], js ''See inline comments for details.'']"

definition payload_both :: review_payload where
  "payload_both =
     ReviewPayload (js ''COMMENT'') summary_both
       [InlineComment (Some (JString (js ''a.ts''))) (Some (JNumber 3)) (js ''RIGHT'') comment1,
        InlineComment (Some (JString (js ''c.ts''))) (Some (JNumber 3)) (js ''RIGHT'') comment3]"

section \<open>Evaluation\<close>

text \<open>The definitions a concrete text or value is evaluated with.\<close>

lemmas json_eval = JSON_parse_def skip_ws_def is_json_ws_def is_digit_def parse_number_def
  scan_int_def scan_frac_def scan_exp_def parse_keyword_def startsWith_def cons_char_def
  digits_val_def MAX_SAFE_INTEGER_def mk_object_def obj_set_def is_array_index_def hex4_def
  hex_val_def unescape_def Let_def


lemmas cast_eval = as_ReviewFinding_def get_prop_def as_int_def as_string_def as_severity_def
  as_approved_def as_posted_def

section \<open>Properties of the sort\<close>

lemma mset_sort_insert: "mset (sort_insert cmp x ys) = add_mset x (mset ys)"
  by (induction ys) simp_all

lemma mset_array_sort: "mset (array_sort cmp xs) = mset xs"
  by (induction xs) (simp_all add: array_sort_def mset_sort_insert)

lemma set_sort_insert: "set (sort_insert cmp x ys) = insert x (set ys)"
  by (induction ys) auto

lemma set_sort_by_severity: "set (sort_by_severity fs) = set fs"
  using mset_array_sort [of severity_cmp fs] by (metis set_mset_mset sort_by_severity_def)

lemma length_sort_by_severity: "length (sort_by_severity fs) = length fs"
  using mset_array_sort [of severity_cmp fs] by (metis size_mset sort_by_severity_def)

lemma severity_cmp_le:
  "order_of a = Some x \<Longrightarrow> order_of b = Some y \<Longrightarrow> severity_cmp a b \<le> 0 \<longleftrightarrow> x \<le> y"
  by (simp add: severity_cmp_def)

lemma rank_ordered_insert:
  assumes "order_of x \<noteq> None" and "list_all (\<lambda>f. order_of f \<noteq> None) ys"
    and "sorted_wrt (\<lambda>a b. the (order_of a) \<le> the (order_of b)) ys"
  shows "sorted_wrt (\<lambda>a b. the (order_of a) \<le> the (order_of b)) (sort_insert severity_cmp x ys)"
  using assms(2,3)
proof (induction ys)
  case Nil
  show ?case by simp
next
  case (Cons y ys)
  from assms(1) obtain rx where rx: "order_of x = Some rx" by auto
  from Cons.prems(1) obtain ry where ry: "order_of y = Some ry" by auto
  show ?case
  proof (cases "severity_cmp x y \<le> 0")
    case True
    with severity_cmp_le [OF rx ry] have xy: "rx \<le> ry" by simp
    have "\<forall>z \<in> set ys. the (order_of x) \<le> the (order_of z)"
      using Cons.prems(2) xy rx ry by auto
    with True xy Cons.prems(2) rx ry show ?thesis by simp
  next
    case False
    with severity_cmp_le [OF rx ry] have "ry \<le> rx" by simp
    with False Cons rx ry show ?thesis
      by (auto simp: set_sort_insert)
  qed
qed

lemma rank_ordered_sort:
  "list_all (\<lambda>f. order_of f \<noteq> None) fs \<Longrightarrow>
   sorted_wrt (\<lambda>a b. the (order_of a) \<le> the (order_of b)) (sort_by_severity fs)"
proof (induction fs)
  case Nil
  show ?case by (simp add: sort_by_severity_def array_sort_def)
next
  case (Cons x xs)
  have step: "sort_by_severity (x # xs) = sort_insert severity_cmp x (sort_by_severity xs)"
    by (simp add: sort_by_severity_def array_sort_def)
  from Cons.prems have "list_all (\<lambda>f. order_of f \<noteq> None) (sort_by_severity xs)"
    by (simp add: list_all_iff set_sort_by_severity)
  with Cons show ?case
    unfolding step by (intro rank_ordered_insert) simp_all
qed

lemma order_of_severity:
  "get_prop a (js ''severity'') = get_prop b (js ''severity'') \<Longrightarrow> order_of a = order_of b"
  by (simp add: order_of_def)

lemma severity_cmp_same:
  "get_prop a (js ''severity'') = get_prop b (js ''severity'') \<Longrightarrow> severity_cmp a b = 0"
  using order_of_severity [of a b] by (simp add: severity_cmp_def split: option.splits)

lemma filter_sort_insert_other:
  "get_prop x (js ''severity'') \<noteq> s \<Longrightarrow>
   filter (\<lambda>f. get_prop f (js ''severity'') = s) (sort_insert severity_cmp x ys) =
     filter (\<lambda>f. get_prop f (js ''severity'') = s) ys"
  by (induction ys) simp_all

lemma filter_sort_insert_same:
  "filter (\<lambda>f. get_prop f (js ''severity'') = get_prop x (js ''severity''))
     (sort_insert severity_cmp x ys) =
   x # filter (\<lambda>f. get_prop f (js ''severity'') = get_prop x (js ''severity'')) ys"
proof (induction ys)
  case Nil
  show ?case by simp
next
  case (Cons y ys)
  show ?case
  proof (cases "severity_cmp x y \<le> 0")
    case True
    then show ?thesis by simp
  next
    case False
    with severity_cmp_same [of x y]
    have "get_prop y (js ''severity'') \<noteq> get_prop x (js ''severity'')" by auto
    with False Cons show ?thesis by simp
  qed
qed

lemma filter_sort_by_severity:
  "filter (\<lambda>f. get_prop f (js ''severity'') = s) (sort_by_severity fs) =
     filter (\<lambda>f. get_prop f (js ''severity'') = s) fs"
proof (induction fs)
  case Nil
  show ?case by (simp add: sort_by_severity_def array_sort_def)
next
  case (Cons x xs)
  have step: "sort_by_severity (x # xs) = sort_insert severity_cmp x (sort_by_severity xs)"
    by (simp add: sort_by_severity_def array_sort_def)
  show ?case
  proof (cases "get_prop x (js ''severity'') = s")
    case True
    with Cons step show ?thesis
      using filter_sort_insert_same [of x "sort_by_severity xs"] by simp
  next
    case False
    with Cons step show ?thesis
      by (simp add: filter_sort_insert_other)
  qed
qed

lemma severity_keys:
  "js ''critical'' \<noteq> js ''warning''" "js ''critical'' \<noteq> js ''suggestion''"
  "js ''warning'' \<noteq> js ''suggestion''"
  by (simp_all add: js_def)

lemma order_of_names:
  "has_severity ''critical'' f \<Longrightarrow> order_of f = Some 0"
  "has_severity ''warning'' f \<Longrightarrow> order_of f = Some 1"
  "has_severity ''suggestion'' f \<Longrightarrow> order_of f = Some 2"
  using severity_keys
  by (simp_all add: has_severity_def order_of_def template_def SEVERITY_ORDER_def)

text \<open>
  C5. For every sequence of findings, whatever their properties are, the sort keeps every
  finding (it is total: the result is a permutation of the input) and keeps the findings
  of one severity in their original relative order. The rank of a critical finding is 0,
  of a warning 1, of a suggestion 2; and when the rank of every finding is a number (it
  is for these three, and 99 for a severity that is no member of \<open>SEVERITY_ORDER\<close>), the
  result is in the order of the ranks: every critical finding before every warning, every
  warning before every suggestion.
\<close>

theorem C5_sort_stable_total:
  "mset (sort_by_severity fs) = mset fs \<and>
   (\<forall>s. filter (\<lambda>f. get_prop f (js ''severity'') = s) (sort_by_severity fs) =
         filter (\<lambda>f. get_prop f (js ''severity'') = s) fs) \<and>
   (\<forall>f. (has_severity ''critical'' f \<longrightarrow> order_of f = Some 0) \<and>
        (has_severity ''warning'' f \<longrightarrow> order_of f = Some 1) \<and>
        (has_severity ''suggestion'' f \<longrightarrow> order_of f = Some 2)) \<and>
   (list_all (\<lambda>f. order_of f \<noteq> None) fs \<longrightarrow>
      sorted_wrt (\<lambda>a b. the (order_of a) \<le> the (order_of b)) (sort_by_severity fs))"
  using mset_array_sort [of severity_cmp fs] filter_sort_by_severity [of _ fs]
    rank_ordered_sort [of fs] order_of_names
  by (simp add: sort_by_severity_def)

section \<open>The normalizer: \<open>JSON.parse\<close> after \<open>JSON.stringify\<close>\<close>

subsection \<open>Strings\<close>

lemma hex_val_digit: "d < 16 \<Longrightarrow> hex_val (hex_digit d) = Some d"
  by (auto simp: hex_val_def hex_digit_def)

lemma hex4_digits:
  assumes "c < 65536"
    and "a = hex_digit (c div 4096 mod 16)" and "b = hex_digit (c div 256 mod 16)"
    and "e = hex_digit (c div 16 mod 16)" and "d = hex_digit (c mod 16)"
  shows "hex4 a b e d = Some c"
proof -
  define q1 where "q1 = c div 16"
  define q2 where "q2 = q1 div 16"
  define q3 where "q3 = q2 div 16"
  have d2: "c div 256 = q2"
    using div_mult2_eq [of c 16 16] by (simp add: q1_def q2_def)
  have d3: "c div 4096 = q3"
    using div_mult2_eq [of c 256 16] by (simp add: d2 q3_def)
  from assms(1) have "q3 < 16" unfolding d3 [symmetric] by simp
  then have f4: "q3 mod 16 = q3" by simp
  have f3: "q3 * 16 + q2 mod 16 = q2" unfolding q3_def by simp
  have f2: "q2 * 16 + q1 mod 16 = q1" unfolding q2_def by simp
  have f1: "q1 * 16 + c mod 16 = c" unfolding q1_def by simp
  have "((q3 mod 16 * 16 + q2 mod 16) * 16 + q1 mod 16) * 16 + c mod 16 = c"
    by (simp only: f4 f3 f2 f1)
  then show ?thesis
    by (simp add: hex4_def hex_val_digit assms(2-5) d2 d3 q1_def [symmetric])
qed

lemma parse_unicode_escape:
  assumes "c < 65536"
  shows "parse_string_body (unicode_escape c @ rest) = cons_char c (parse_string_body rest)"
proof -
  define a where "a = hex_digit (c div 4096 mod 16)"
  define b where "b = hex_digit (c div 256 mod 16)"
  define e where "e = hex_digit (c div 16 mod 16)"
  define d where "d = hex_digit (c mod 16)"
  have h: "hex4 a b e d = Some c"
    by (rule hex4_digits [OF assms a_def b_def e_def d_def])
  have u: "unicode_escape c @ rest = 92 # 117 # a # b # e # d # rest"
    by (simp add: unicode_escape_def a_def b_def e_def d_def)
  show ?thesis
    unfolding u by (simp add: h)
qed

lemma parse_quote_unit:
  "parse_string_body (quote_unit c @ rest) = cons_char c (parse_string_body rest)"
proof (cases "c = 8 \<or> c = 9 \<or> c = 10 \<or> c = 12 \<or> c = 13 \<or> c = 34 \<or> c = 92")
  case True
  then show ?thesis
    by (elim disjE) (simp_all add: quote_unit_def unescape_def)
next
  case special: False
  show ?thesis
  proof (cases "c < 32 \<or> is_lead c \<or> is_trail c")
    case True
    then have "c < 65536" by (auto simp: is_lead_def is_trail_def)
    moreover have "quote_unit c = unicode_escape c"
      using special True by (simp add: quote_unit_def)
    ultimately show ?thesis
      by (simp add: parse_unicode_escape)
  next
    case False
    with special have "quote_unit c = [c]"
      by (simp add: quote_unit_def)
    with special False show ?thesis by simp
  qed
qed

lemma parse_quote_units:
  "parse_string_body (quote_units s @ 34 # rest) = Some (s, rest)"
proof (induction s rule: quote_units.induct)
  case 1
  show ?case by simp
next
  case (2 c)
  have "parse_string_body (quote_unit c @ 34 # rest) = Some ([c], rest)"
    by (simp only: parse_quote_unit) (simp add: cons_char_def)
  then show ?case by simp
next
  case (3 c d cs)
  show ?case
  proof (cases "is_lead c \<and> is_trail d")
    case True
    then have q: "quote_units (c # d # cs) = c # d # quote_units cs" by simp
    from True have c: "\<not> c < 32" "c \<noteq> 34" "c \<noteq> 92" and d: "\<not> d < 32" "d \<noteq> 34" "d \<noteq> 92"
      by (auto simp: is_lead_def is_trail_def)
    from "3.IH"(1) [OF True] c d show ?thesis
      unfolding q by (simp add: cons_char_def)
  next
    case False
    have q: "quote_units (c # d # cs) = quote_unit c @ quote_units (d # cs)"
      by (simp only: quote_units.simps False if_False)
    have "parse_string_body (quote_unit c @ (quote_units (d # cs) @ 34 # rest)) =
        cons_char c (parse_string_body (quote_units (d # cs) @ 34 # rest))"
      by (rule parse_quote_unit)
    with "3.IH"(2) [OF False] show ?thesis
      unfolding q by (simp add: cons_char_def del: quote_units.simps)
  qed
qed

lemma parse_quote: "parse_string_body (tl (quote s) @ rest) = Some (s, rest)"
  by (simp add: quote_def parse_quote_units)

subsection \<open>Numbers\<close>

lemma digits_val_snoc: "digits_val (ds @ [d]) = 10 * digits_val ds + (d - 48)"
  by (simp add: digits_val_def)

lemma digit_of_mod: "is_digit (48 + n mod 10)"
proof -
  have "n mod 10 < 10" by simp
  then show ?thesis unfolding is_digit_def by linarith
qed

lemma show_digits_all: "list_all is_digit (show_digits k n)"
proof (induction k arbitrary: n)
  case 0
  show ?case by (simp add: digit_of_mod)
next
  case (Suc k)
  show ?case
  proof (cases "n < 10")
    case True
    then show ?thesis by (simp add: is_digit_def)
  next
    case False
    with Suc [of "n div 10"] show ?thesis by (simp add: digit_of_mod)
  qed
qed

lemma show_digits_nonempty: "show_digits k n \<noteq> []"
  by (cases k) simp_all

lemma show_digits_val: "n < 10 ^ Suc k \<Longrightarrow> digits_val (show_digits k n) = n"
proof (induction k arbitrary: n)
  case 0
  then show ?case by (simp add: digits_val_def)
next
  case (Suc k)
  show ?case
  proof (cases "n < 10")
    case True
    then show ?thesis by (simp add: digits_val_def)
  next
    case False
    from Suc.prems have "n div 10 < 10 ^ Suc k" by simp
    from Suc.IH [OF this] False show ?thesis
      by (simp add: digits_val_snoc)
  qed
qed

lemma show_digits_leading:
  "n < 10 ^ Suc k \<Longrightarrow> hd (show_digits k n) = 48 \<Longrightarrow> show_digits k n = [48]"
proof (induction k arbitrary: n)
  case 0
  then show ?case by simp
next
  case (Suc k)
  show ?case
  proof (cases "n < 10")
    case True
    with Suc.prems show ?thesis by simp
  next
    case False
    from Suc.prems(1) have b: "n div 10 < 10 ^ Suc k" by simp
    from False Suc.prems(2) have "hd (show_digits k (n div 10)) = 48"
      by (simp add: show_digits_nonempty)
    from Suc.IH [OF b this] have "show_digits k (n div 10) = [48]" .
    with show_digits_val [OF b] have "n div 10 = 0" by (simp add: digits_val_def)
    with False show ?thesis by simp
  qed
qed

lemma less_pow10: "n < 10 ^ Suc n"
proof -
  have "n < 2 ^ n" by (rule less_exp)
  also have "(2::nat) ^ n \<le> 10 ^ n" by (rule power_mono) simp_all
  also have "(10::nat) ^ n \<le> 10 ^ Suc n" by simp
  finally show ?thesis .
qed

lemma show_nat_facts:
  "list_all is_digit (show_nat n)" "show_nat n \<noteq> []" "digits_val (show_nat n) = n"
  "hd (show_nat n) = 48 \<Longrightarrow> show_nat n = [48]"
  by (simp_all add: show_nat_def show_digits_all show_digits_nonempty
        show_digits_val [OF less_pow10] show_digits_leading [OF less_pow10])

lemma span_digits:
  assumes "list_all is_digit ds" and "delim rest"
  shows "takeWhile is_digit (ds @ rest) = ds" and "dropWhile is_digit (ds @ rest) = rest"
proof -
  from assms(2) have nd: "rest = [] \<or> \<not> is_digit (hd rest)"
    by (cases rest) (auto simp: delim_def is_digit_def)
  have r1: "takeWhile is_digit rest = []" using nd by (cases rest) auto
  have r2: "dropWhile is_digit rest = rest" using nd by (cases rest) auto
  note r = r1 r2
  from assms(1) have "\<And>x. x \<in> set ds \<Longrightarrow> is_digit x" by (simp add: list_all_iff)
  then show "takeWhile is_digit (ds @ rest) = ds" "dropWhile is_digit (ds @ rest) = rest"
    by (simp_all add: takeWhile_append2 dropWhile_append2 r)
qed

lemma scan_int_show_nat:
  assumes "delim rest"
  shows "scan_int (show_nat n @ rest) = Some (show_nat n, rest)"
proof -
  obtain c cs where s: "show_nat n = c # cs"
    using show_nat_facts(2) [of n] by (cases "show_nat n") auto
  have d: "is_digit c" using show_nat_facts(1) [of n] by (simp add: s)
  show ?thesis
  proof (cases "c = 48")
    case True
    with show_nat_facts(4) [of n] s have "cs = []" by simp
    with True s show ?thesis by (simp add: scan_int_def)
  next
    case False
    from span_digits [OF show_nat_facts(1) assms, of n] s d False show ?thesis
      by (simp add: scan_int_def)
  qed
qed

lemma scan_frac_delim: "delim rest \<Longrightarrow> scan_frac rest = Some ([], rest)"
  by (cases rest) (auto simp: scan_frac_def delim_def)

lemma scan_exp_delim: "delim rest \<Longrightarrow> scan_exp rest = Some ([], rest)"
  by (cases rest) (auto simp: scan_exp_def delim_def)

lemma hd_show_nat_digit: "is_digit (hd (show_nat n))"
  using show_nat_facts(1,2) [of n] by (cases "show_nat n") simp_all

lemma parse_number_show_int:
  assumes "\<bar>i\<bar> \<le> int MAX_SAFE_INTEGER" and "delim rest"
  shows "parse_number (show_int i @ rest) = Some (JNumber i, rest)"
proof (cases "i < 0")
  case True
  then have s: "show_int i @ rest = 45 # (show_nat (nat (- i)) @ rest)"
    by (simp add: show_int_def)
  from assms(1) True have m: "nat (- i) \<le> MAX_SAFE_INTEGER" by linarith
  from True have v: "- int (nat (- i)) = i" by linarith
  show ?thesis
    unfolding s
    by (simp only: parse_number_def Let_def list.case list.sel simp_thms if_True
          scan_int_show_nat [OF assms(2)] scan_frac_delim [OF assms(2)]
          scan_exp_delim [OF assms(2)] option.case prod.case show_nat_facts(3) m v)
next
  case False
  then have s: "show_int i = show_nat (nat i)" by (simp add: show_int_def)
  obtain c cs where cs: "show_nat (nat i) = c # cs"
    using show_nat_facts(2) [of "nat i"] by (cases "show_nat (nat i)") auto
  from hd_show_nat_digit [of "nat i"] cs have "c \<noteq> 45" by (auto simp: is_digit_def)
  then have neg: "(case show_nat (nat i) @ rest of c # x \<Rightarrow> c = 45 | [] \<Rightarrow> False) = False"
    by (simp add: cs)
  from assms(1) False have m: "nat i \<le> MAX_SAFE_INTEGER" by linarith
  from False have v: "int (nat i) = i" by linarith
  show ?thesis
    unfolding s
    by (simp only: parse_number_def Let_def neg if_False if_True simp_thms
          scan_int_show_nat [OF assms(2)] scan_frac_delim [OF assms(2)]
          scan_exp_delim [OF assms(2)] option.case prod.case show_nat_facts(3) m v)
qed

lemma int_to_string_safe:
  "\<bar>i\<bar> \<le> int MAX_SAFE_INTEGER \<Longrightarrow> int_to_string i = show_int i"
  by (simp add: int_to_string_def MAX_SAFE_INTEGER_def)

lemma skip_ws_Cons: "\<not> is_json_ws c \<Longrightarrow> skip_ws (c # cs) = c # cs"
  by (simp add: skip_ws_def)

lemma delim_simps [simp]: "delim []" "delim (44 # r)" "delim (93 # r)" "delim (125 # r)"
  by (simp_all add: delim_def)

lemma join_Cons: "ys \<noteq> [] \<Longrightarrow> join sep (x # ys) = x @ sep @ join sep ys"
  by (cases ys) simp_all

lemma show_int_start:
  "\<exists>c cs. show_int i = c # cs \<and> (c = 45 \<or> is_digit c)"
proof (cases "i < 0")
  case True
  then show ?thesis by (simp add: show_int_def)
next
  case False
  obtain c cs where "show_nat (nat i) = c # cs"
    using show_nat_facts(2) [of "nat i"] by (cases "show_nat (nat i)") auto
  with hd_show_nat_digit [of "nat i"] False show ?thesis
    by (simp add: show_int_def)
qed

lemma stringify_start:
  "wf_json v \<Longrightarrow> \<exists>c cs. JSON_stringify v = c # cs \<and> value_start c"
proof (cases v)
  case JNull
  then show ?thesis by (simp add: value_start_def is_json_ws_def js_def)
next
  case (JBool b)
  then show ?thesis by (cases b) (simp_all add: value_start_def is_json_ws_def js_def)
next
  case (JNumber i)
  assume "wf_json v"
  with JNumber have t: "JSON_stringify v = show_int i" by (simp add: int_to_string_safe)
  from show_int_start [of i] obtain c cs where "show_int i = c # cs" "c = 45 \<or> is_digit c"
    by blast
  with t show ?thesis
    by (auto simp: value_start_def is_json_ws_def is_digit_def)
next
  case (JDecimal m d)
  assume "wf_json v"
  with JDecimal show ?thesis by simp
next
  case (JString s)
  then show ?thesis by (simp add: value_start_def is_json_ws_def quote_def)
next
  case (JArray xs)
  have "value_start 91" by (simp add: value_start_def is_json_ws_def)
  with JArray show ?thesis by simp
next
  case (JObject kvs)
  have "value_start 123" by (simp add: value_start_def is_json_ws_def)
  with JObject show ?thesis by simp
qed

lemma parse_atom:
  assumes "delim rest"
  shows "parse_value (Suc m) (js ''null'' @ rest) = Some (JNull, rest)"
    and "parse_value (Suc m) (js ''true'' @ rest) = Some (JBool True, rest)"
    and "parse_value (Suc m) (js ''false'' @ rest) = Some (JBool False, rest)"
  by (simp_all add: js_def skip_ws_def is_json_ws_def is_digit_def parse_keyword_def startsWith_def)

lemma parse_value_number:
  assumes "\<bar>i\<bar> \<le> int MAX_SAFE_INTEGER" and "delim rest"
  shows "parse_value (Suc m) (show_int i @ rest) = Some (JNumber i, rest)"
proof -
  from show_int_start [of i] obtain c cs where s: "show_int i = c # cs" and c: "c = 45 \<or> is_digit c"
    by blast
  from c have w: "\<not> is_json_ws c" "c \<noteq> 91" "c \<noteq> 123" "c \<noteq> 34"
    by (auto simp: is_json_ws_def is_digit_def)
  have "parse_value (Suc m) (c # (cs @ rest)) = parse_number (c # (cs @ rest))"
    using c w by (simp add: skip_ws_Cons)
  with parse_number_show_int [OF assms] s show ?thesis by simp
qed

lemma parse_value_string:
  "parse_value (Suc m) (quote s @ rest) = Some (JString s, rest)"
proof -
  have "\<not> is_json_ws 34" by (simp add: is_json_ws_def)
  then show ?thesis
    by (simp add: quote_def skip_ws_Cons parse_quote_units)
qed

text \<open>The elements of a non-empty array, given that each element is read back.\<close>

lemma parse_elements_join:
  assumes "xs \<noteq> []"
    and "\<And>x n r. x \<in> set xs \<Longrightarrow> delim r \<Longrightarrow> length (JSON_stringify x) \<le> n \<Longrightarrow>
           parse_value n (JSON_stringify x @ r) = Some (x, r)"
    and "length (join [44] (map JSON_stringify xs)) < m"
  shows "parse_elements m (join [44] (map JSON_stringify xs) @ 93 # rest) = Some (xs, rest)"
  using assms
proof (induction xs arbitrary: m rule: list_nonempty_induct)
  case (single x)
  from single.prems(2) obtain m' where m: "m = Suc m'" and l: "length (JSON_stringify x) \<le> m'"
    by (cases m) auto
  have v: "parse_value m' (JSON_stringify x @ 93 # rest) = Some (x, 93 # rest)"
    by (rule single.prems(1)) (simp_all add: l)
  have "\<not> is_json_ws 93" by (simp add: is_json_ws_def)
  then show ?case
    by (simp add: m v skip_ws_Cons)
next
  case (cons x xs)
  have j: "join [44] (map JSON_stringify (x # xs)) =
      JSON_stringify x @ 44 # join [44] (map JSON_stringify xs)"
    using cons.hyps by (simp add: join_Cons)
  from cons.prems(2) obtain m' where m: "m = Suc m'"
    and l: "length (JSON_stringify x) \<le> m'"
    and l': "length (join [44] (map JSON_stringify xs)) < m'"
    unfolding j by (cases m) auto
  have v: "parse_value m' (JSON_stringify x @ 44 # (join [44] (map JSON_stringify xs) @ 93 # rest)) =
      Some (x, 44 # (join [44] (map JSON_stringify xs) @ 93 # rest))"
    by (rule cons.prems(1)) (simp_all add: l)
  have e: "parse_elements m' (join [44] (map JSON_stringify xs) @ 93 # rest) = Some (xs, rest)"
    by (rule cons.IH) (simp_all add: cons.prems(1) l')
  have "\<not> is_json_ws 44" by (simp add: is_json_ws_def)
  then show ?case
    unfolding j m by (simp add: v e skip_ws_Cons)
qed

lemma parse_members_join:
  assumes "kvs \<noteq> []"
    and "\<And>k x n r. (k, x) \<in> set kvs \<Longrightarrow> delim r \<Longrightarrow> length (JSON_stringify x) \<le> n \<Longrightarrow>
           parse_value n (JSON_stringify x @ r) = Some (x, r)"
    and "length (join [44] (map member_text kvs)) < m"
  shows "parse_members m (join [44] (map member_text kvs) @ 125 # rest) = Some (kvs, rest)"
  using assms
proof (induction kvs arbitrary: m rule: list_nonempty_induct)
  case (single kv)
  obtain k x where kv: "kv = (k, x)" by (cases kv)
  from single.prems(2) obtain m' where m: "m = Suc m'" and l: "length (JSON_stringify x) \<le> m'"
    by (cases m) (auto simp: kv member_text_def)
  have v: "parse_value m' (JSON_stringify x @ 125 # rest) = Some (x, 125 # rest)"
    by (rule single.prems(1) [of k]) (simp_all add: l kv)
  have t: "join [44] (map member_text [kv]) @ 125 # rest =
      34 # (quote_units k @ 34 # (58 # (JSON_stringify x @ 125 # rest)))"
    by (simp add: kv member_text_def quote_def)
  have w: "\<not> is_json_ws 34" "\<not> is_json_ws 58" "\<not> is_json_ws 125" by (simp_all add: is_json_ws_def)
  show ?case
    unfolding t m by (simp add: skip_ws_Cons w parse_quote_units v kv)
next
  case (cons kv kvs)
  obtain k x where kv: "kv = (k, x)" by (cases kv)
  let ?tail = "join [44] (map member_text kvs) @ 125 # rest"
  have mt: "member_text kv = 34 # (quote_units k @ 34 # 58 # JSON_stringify x)"
    by (simp add: kv member_text_def quote_def)
  have j: "join [44] (map member_text (kv # kvs)) =
      member_text kv @ 44 # join [44] (map member_text kvs)"
    using cons.hyps by (simp add: join_Cons)
  have len: "length (join [44] (map member_text (kv # kvs))) =
      length (quote_units k) + length (JSON_stringify x) + length (join [44] (map member_text kvs)) + 4"
    unfolding j mt by simp
  from cons.prems(2) len obtain m' where m: "m = Suc m'"
    and l: "length (JSON_stringify x) \<le> m'"
    and l': "length (join [44] (map member_text kvs)) < m'"
    by (cases m) simp_all
  have v: "parse_value m' (JSON_stringify x @ 44 # ?tail) = Some (x, 44 # ?tail)"
    by (rule cons.prems(1) [of k]) (simp_all add: l kv)
  have e: "parse_members m' ?tail = Some (kvs, rest)"
  proof (rule cons.IH)
    fix k' x' n r
    assume "(k', x') \<in> set kvs" "delim r" "length (JSON_stringify x') \<le> n"
    then show "parse_value n (JSON_stringify x' @ r) = Some (x', r)"
      using cons.prems(1) [of k' x' r n] by simp
  next
    show "length (join [44] (map member_text kvs)) < m'" by (rule l')
  qed
  have t: "join [44] (map member_text (kv # kvs)) @ 125 # rest =
      34 # (quote_units k @ 34 # (58 # (JSON_stringify x @ 44 # ?tail)))"
    by (simp only: j mt append.simps append_assoc)
  have w: "\<not> is_json_ws 34" "\<not> is_json_ws 58" "\<not> is_json_ws 44" by (simp_all add: is_json_ws_def)
  have p1: "parse_members (Suc m') (34 # (quote_units k @ 34 # (58 # (JSON_stringify x @ 44 # ?tail)))) =
      (case parse_value m' (JSON_stringify x @ 44 # ?tail) of None \<Rightarrow> None
       | Some (v, s4) \<Rightarrow>
           (case skip_ws s4 of [] \<Rightarrow> None
            | c # cs \<Rightarrow>
                if c = 44 then (case parse_members m' cs of None \<Rightarrow> None
                                | Some (kvs, rest) \<Rightarrow> Some ((k, v) # kvs, rest))
                else if c = 125 then Some ([(k, v)], cs) else None))"
    by (simp add: skip_ws_Cons w parse_quote_units)
  show ?case
    unfolding t m p1 v by (simp add: skip_ws_Cons w e kv)
qed

lemma join_start:
  assumes "xs \<noteq> []" and "\<exists>c cs. hd xs = c # cs \<and> P c"
  shows "\<exists>c cs. join sep xs = c # cs \<and> P c"
proof (cases xs)
  case Nil
  with assms(1) show ?thesis by simp
next
  case (Cons x ys)
  with assms(2) obtain c cs where x: "x = c # cs" and p: "P c" by auto
  show ?thesis
  proof (cases ys)
    case Nil
    with Cons x p show ?thesis by simp
  next
    case (Cons y zs)
    with \<open>xs = x # ys\<close> x p show ?thesis by simp
  qed
qed

lemma members_text:
  "map (\<lambda>(k, v). quote k @ [58] @ JSON_stringify v) kvs = map member_text kvs"
  "map (\<lambda>(k, v). quote k @ 58 # JSON_stringify v) kvs = map member_text kvs"
  by (simp_all add: member_text_def case_prod_beta)

lemma parse_value_stringify:
  "wf_json v \<Longrightarrow> delim rest \<Longrightarrow> length (JSON_stringify v) \<le> n \<Longrightarrow>
   parse_value n (JSON_stringify v @ rest) = Some (v, rest)"
proof (induction v arbitrary: n rest)
  case JNull
  then obtain m where "n = Suc m" by (cases n) (simp_all add: js_def)
  with parse_atom(1) [OF JNull.prems(2)] show ?case by simp
next
  case (JBool b)
  then obtain m where "n = Suc m" by (cases n; cases b) (simp_all add: js_def)
  with parse_atom(2,3) [OF JBool.prems(2)] show ?case by (cases b) simp_all
next
  case (JNumber i)
  from JNumber.prems(1) have t: "JSON_stringify (JNumber i) = show_int i"
    by (simp add: int_to_string_safe)
  from show_int_start [of i] JNumber.prems(3) obtain m where "n = Suc m"
    unfolding t by (cases n) auto
  with parse_value_number [OF _ JNumber.prems(2), of i] JNumber.prems(1) show ?case
    unfolding t by simp
next
  case (JDecimal m d)
  then show ?case by simp
next
  case (JString s)
  then obtain m where "n = Suc m" by (cases n) (simp_all add: quote_def)
  with parse_value_string show ?case by simp
next
  case (JArray xs)
  from JArray.prems(3) obtain m where n: "n = Suc m"
    and l: "length (join [44] (map JSON_stringify xs)) < m"
    by (cases n) auto
  have w91: "\<not> is_json_ws 91" and w93: "\<not> is_json_ws 93" by (simp_all add: is_json_ws_def)
  show ?case
  proof (cases "xs = []")
    case True
    then show ?thesis by (simp add: n skip_ws_Cons w91 w93)
  next
    case False
    have elems: "parse_elements m (join [44] (map JSON_stringify xs) @ 93 # rest) = Some (xs, rest)"
    proof (rule parse_elements_join [OF False _ l])
      fix x n' r
      assume "x \<in> set xs" "delim r" "length (JSON_stringify x) \<le> n'"
      with JArray.IH [of x r n'] JArray.prems(1) show "parse_value n' (JSON_stringify x @ r) = Some (x, r)"
        by (simp add: list_all_iff)
    qed
    from False JArray.prems(1) have "wf_json (hd xs)" by (cases xs) simp_all
    from stringify_start [OF this] False
    have "\<exists>c cs. hd (map JSON_stringify xs) = c # cs \<and> value_start c"
      by (simp add: hd_map)
    with join_start [of "map JSON_stringify xs" value_start "[44]"] False
    obtain c cs where j: "join [44] (map JSON_stringify xs) = c # cs" and c: "value_start c"
      by auto
    from c have c': "\<not> is_json_ws c" "c \<noteq> 93" by (simp_all add: value_start_def)
    have "parse_value (Suc m) (91 # ((c # cs) @ 93 # rest)) =
        (case parse_elements m ((c # cs) @ 93 # rest) of None \<Rightarrow> None
         | Some (vs, rest') \<Rightarrow> Some (JArray vs, rest'))"
      using c' by (simp add: skip_ws_Cons w91)
    with elems show ?thesis
      by (simp add: n j)
  qed
next
  case (JObject kvs)
  from JObject.prems(3) obtain m where n: "n = Suc m"
    and l: "length (join [44] (map member_text kvs)) < m"
    by (cases n) (auto simp: members_text)
  have w: "\<not> is_json_ws 123" "\<not> is_json_ws 125" "\<not> is_json_ws 34"
    by (simp_all add: is_json_ws_def)
  from JObject.prems(1) have obj: "mk_object kvs = kvs" by simp
  show ?case
  proof (cases "kvs = []")
    case True
    then show ?thesis by (simp add: n skip_ws_Cons w)
  next
    case False
    have mems: "parse_members m (join [44] (map member_text kvs) @ 125 # rest) = Some (kvs, rest)"
    proof (rule parse_members_join [OF False _ l])
      fix k x n' r
      assume in_kvs: "(k, x) \<in> set kvs" and "delim r" "length (JSON_stringify x) \<le> n'"
      moreover from in_kvs JObject.prems(1) have "wf_json x" by (auto simp: list_all_iff)
      moreover have "x \<in> Basic_BNFs.snds (k, x)" by simp
      ultimately show "parse_value n' (JSON_stringify x @ r) = Some (x, r)"
        using JObject.IH [of "(k, x)" x r n'] by simp
    qed
    obtain k x ys where kvs: "kvs = (k, x) # ys" using False by (cases kvs) auto
    have "\<exists>c cs. hd (map member_text kvs) = c # cs \<and> c = 34"
      by (simp add: kvs member_text_def quote_def)
    with join_start [of "map member_text kvs" "\<lambda>c. c = 34" "[44]"] False
    obtain cs where j: "join [44] (map member_text kvs) = 34 # cs"
      by auto
    have "parse_value (Suc m) (123 # ((34 # cs) @ 125 # rest)) =
        (case parse_members m ((34 # cs) @ 125 # rest) of None \<Rightarrow> None
         | Some (kvs', rest') \<Rightarrow> Some (JObject (mk_object kvs'), rest'))"
      by (simp add: skip_ws_Cons w)
    with mems obj show ?thesis
      by (simp add: n j members_text)
  qed
qed

text \<open>\<open>JSON.parse\<close> reads back what \<open>JSON.stringify\<close> wrote.\<close>

lemma JSON_parse_stringify: "wf_json v \<Longrightarrow> JSON_parse (JSON_stringify v) = Some v"
  using parse_value_stringify [of v "[]" "Suc (length (JSON_stringify v))"]
  by (simp add: JSON_parse_def skip_ws_def)

subsection \<open>Trimming and fences\<close>

lemma trim_id:
  assumes "s \<noteq> []" and "\<not> is_space (hd s)" and "\<not> is_space (last s)"
  shows "trim s = s"
proof -
  from assms(1,2) have a: "dropWhile is_space s = s" by (cases s) simp_all
  from assms(1,3) have "dropWhile is_space (rev s) = rev s"
    by (cases "rev s") (simp_all add: hd_rev [symmetric])
  with a show ?thesis by (simp add: trim_def)
qed

lemma array_text: "\<exists>inner. JSON_stringify (JArray vs) = 91 # inner @ [93]"
  by simp

lemma unfence_plain:
  assumes "s = 91 # inner @ [93]"
  shows "unfence (trim s) = s"
proof -
  have "trim s = s"
    by (rule trim_id) (simp_all add: assms is_space_def)
  moreover have "\<not> startsWith s (js ''```'')"
    by (simp add: assms startsWith_def js_def)
  ultimately show ?thesis by (simp add: unfence_def)
qed

lemma strip_open_code_fence:
  "strip_open_fence (code_fence tag nl1 nl2 (91 # t)) =
     91 # t @ (if nl2 then [10] else []) @ js ''```''"
  by (cases tag; cases nl1)
     (simp_all add: strip_open_fence_def code_fence_def js_def startsWith_def Let_def)

lemma strip_close_code_fence:
  "strip_close_fence ((u @ [93]) @ (if nl2 then [10] else []) @ js ''```'') = u @ [93]"
  by (cases nl2) (simp_all add: strip_close_fence_def endsWith_def js_def)

lemma unfence_fenced:
  assumes "s = 91 # inner @ [93]"
  shows "unfence (trim (code_fence tag nl1 nl2 s)) = s"
proof -
  have t: "trim (code_fence tag nl1 nl2 s) = code_fence tag nl1 nl2 s"
    by (rule trim_id) (simp_all add: code_fence_def js_def is_space_def)
  have st: "startsWith (code_fence tag nl1 nl2 s) (js ''```'')"
    by (simp add: code_fence_def js_def startsWith_def)
  have "strip_close_fence (strip_open_fence (code_fence tag nl1 nl2 (91 # inner @ [93]))) =
      91 # inner @ [93]"
    using strip_close_code_fence [of "91 # inner" nl2]
    by (simp add: strip_open_code_fence)
  with t st show ?thesis by (simp add: unfence_def assms)
qed

subsection \<open>Forcing \<open>approved\<close>\<close>

lemma map_of_obj_replace:
  "map_of (obj_replace k v kvs) k' =
     (if k' = k \<and> k \<in> fst ` set kvs then Some v else map_of kvs k')"
proof (induction kvs)
  case Nil
  show ?case by simp
next
  case (Cons kv kvs)
  obtain a b where kv: "kv = (a, b)" by (cases kv)
  show ?case
  proof (cases "a = k")
    case True
    then show ?thesis by (simp add: kv)
  next
    case False
    with Cons show ?thesis by (auto simp: kv split: if_splits)
  qed
qed

lemma map_of_obj_insert_index:
  "k \<notin> fst ` set kvs \<Longrightarrow>
   map_of (obj_insert_index k v kvs) k' = (if k' = k then Some v else map_of kvs k')"
  by (induction kvs) auto

lemma map_of_snoc:
  "k \<notin> fst ` set kvs \<Longrightarrow>
   map_of (kvs @ [(k, v)]) k' = (if k' = k then Some v else map_of kvs k')"
  by (induction kvs) auto

lemma map_of_obj_set:
  "map_of (obj_set k v kvs) k' = (if k' = k then Some v else map_of kvs k')"
proof (cases "k \<in> fst ` set kvs")
  case True
  then show ?thesis by (simp add: obj_set_def map_of_obj_replace)
next
  case False
  then have "map_of kvs k = None" by (simp add: map_of_eq_None_iff)
  with False show ?thesis
    by (auto simp: obj_set_def map_of_obj_insert_index map_add_def split: option.splits)
qed

lemma get_prop_with_approved_null:
  "get_prop (with_approved_null (JObject kvs)) k =
     (if k = js ''approved'' then Some JNull else map_of kvs k)"
  by (simp add: get_prop_def with_approved_null_def map_of_obj_set)

lemma key_names:
  "js ''id'' \<noteq> js ''approved''" "js ''severity'' \<noteq> js ''approved''"
  "js ''confidence'' \<noteq> js ''approved''" "js ''title'' \<noteq> js ''approved''"
  "js ''file'' \<noteq> js ''approved''" "js ''line'' \<noteq> js ''approved''"
  "js ''why'' \<noteq> js ''approved''" "js ''body'' \<noteq> js ''approved''"
  "js ''posted'' \<noteq> js ''approved''"
  by (simp_all add: js_def)

lemma as_ReviewFinding_object:
  "as_ReviewFinding v = Some f \<Longrightarrow> \<exists>kvs. v = JObject kvs"
  by (cases v) (simp_all add: as_ReviewFinding_def get_prop_def as_int_def)

lemma as_ReviewFinding_forced:
  assumes "as_ReviewFinding v = Some f"
  shows "as_ReviewFinding (with_approved_null v) = Some (f\<lparr>approved := None\<rparr>)"
proof -
  from as_ReviewFinding_object [OF assms] obtain kvs where v: "v = JObject kvs" by blast
  have g: "\<And>k. k \<noteq> js ''approved'' \<Longrightarrow>
      get_prop (with_approved_null (JObject kvs)) k = get_prop (JObject kvs) k"
    by (simp add: get_prop_with_approved_null) (simp add: get_prop_def)
  have a: "as_approved (get_prop (with_approved_null (JObject kvs)) (js ''approved'')) = Some None"
    by (simp add: get_prop_with_approved_null as_approved_def)
  from assms show ?thesis
    unfolding v as_ReviewFinding_def
    by (simp only: g [OF key_names(1)] g [OF key_names(2)] g [OF key_names(3)] g [OF key_names(4)]
          g [OF key_names(5)] g [OF key_names(6)] g [OF key_names(7)] g [OF key_names(8)]
          g [OF key_names(9)] a)
       (auto simp: bind_eq_Some_conv)
qed

lemma cast_findings_forced:
  "cast_findings vs = Some fs \<Longrightarrow>
   cast_findings (map with_approved_null vs) = Some (map (\<lambda>f. f\<lparr>approved := None\<rparr>) fs)"
proof (induction vs arbitrary: fs)
  case Nil
  then show ?case by simp
next
  case (Cons v vs)
  from Cons.prems obtain f fs' where f: "as_ReviewFinding v = Some f"
    and c: "cast_findings vs = Some fs'" and fs: "fs = f # fs'"
    by (auto split: option.splits)
  from Cons.IH [OF c] as_ReviewFinding_forced [OF f] fs show ?case by simp
qed

lemma cast_findings_shaped:
  "list_all finding_shaped vs \<Longrightarrow> \<exists>fs. cast_findings vs = Some fs"
  by (induction vs) (auto simp: finding_shaped_def)

lemma normalize_array:
  assumes "JSON_parse (unfence (trim text)) = Some (JArray xs)"
  shows "normalize text = Inr (map with_approved_null xs)"
  using assms by (simp add: normalize_def)

text \<open>
  C6. For every array \<open>vs\<close> of valid Finding-shaped objects, the normalizer applied to
  the JSON text of the array, bare or wrapped in a markdown code fence (with or without
  the \<open>json\<close> tag and the line breaks), returns the array in the same order with
  \<open>approved\<close> set to \<open>null\<close> in every element: read as findings, the elements are those
  of the input with \<open>approved\<close> unknown, and every other property of every element is
  as it was.
\<close>

theorem C6_normalize_round_trip:
  assumes "list_all finding_shaped vs"
  shows "normalize (JSON_stringify (JArray vs)) = Inr (map with_approved_null vs) \<and>
         normalize (code_fence tag nl1 nl2 (JSON_stringify (JArray vs))) =
           Inr (map with_approved_null vs) \<and>
         (\<exists>fs. cast_findings vs = Some fs \<and>
            cast_findings (map with_approved_null vs) =
              Some (map (\<lambda>f. f\<lparr>approved := None\<rparr>) fs)) \<and>
         (\<forall>v \<in> set vs. \<forall>k. k \<noteq> js ''approved'' \<longrightarrow>
            get_prop (with_approved_null v) k = get_prop v k)"
proof -
  from assms have wf: "wf_json (JArray vs)"
    by (simp add: list_all_iff finding_shaped_def)
  from array_text [of vs] obtain inner where s: "JSON_stringify (JArray vs) = 91 # inner @ [93]"
    by blast
  have p: "JSON_parse (JSON_stringify (JArray vs)) = Some (JArray vs)"
    by (rule JSON_parse_stringify [OF wf])
  have one: "normalize (JSON_stringify (JArray vs)) = Inr (map with_approved_null vs)"
    by (rule normalize_array) (simp only: unfence_plain [OF s] p)
  have two: "normalize (code_fence tag nl1 nl2 (JSON_stringify (JArray vs))) =
           Inr (map with_approved_null vs)"
    by (rule normalize_array) (simp only: unfence_fenced [OF s] p)
  from cast_findings_shaped [OF assms] obtain fs where c: "cast_findings vs = Some fs" by blast
  from cast_findings_forced [OF c] c
  have three: "\<exists>fs. cast_findings vs = Some fs \<and>
            cast_findings (map with_approved_null vs) =
              Some (map (\<lambda>f. f\<lparr>approved := None\<rparr>) fs)"
    by blast
  have four: "\<forall>v \<in> set vs. \<forall>k. k \<noteq> js ''approved'' \<longrightarrow>
            get_prop (with_approved_null v) k = get_prop v k"
  proof (intro ballI allI impI)
    fix v k
    assume "v \<in> set vs" and k: "k \<noteq> js ''approved''"
    with assms have "as_ReviewFinding v \<noteq> None"
      by (simp add: list_all_iff finding_shaped_def)
    then obtain kvs where "v = JObject kvs"
      using as_ReviewFinding_object [of v] by auto
    with k show "get_prop (with_approved_null v) k = get_prop v k"
      by (simp add: get_prop_with_approved_null) (simp add: get_prop_def)
  qed
  from one two three four show ?thesis by blast
qed

text \<open>
  C2 (as the code has it). The normalizer returns an error exactly when the text, trimmed
  and without its fence, is not JSON (the parse error, with the first 500 code units of
  the text) or is JSON but not an array. For an array it returns one object for each
  element, in order, with the properties of the element and \<open>approved\<close> set to \<open>null\<close>:
  no property is dropped and none is required.
\<close>

theorem C2_normalize_checks_array_only:
  "(JSON_parse (unfence (trim text)) = None \<longrightarrow>
      normalize text =
        Inl (Error (js ''Failed to parse AI response as JSON:'' @ [10] @ take 500 (trim text)))) \<and>
   (\<forall>v. JSON_parse (unfence (trim text)) = Some v \<and> (\<forall>xs. v \<noteq> JArray xs) \<longrightarrow>
      normalize text = Inl (Error (js ''AI response is not an array of findings''))) \<and>
   (\<forall>xs. JSON_parse (unfence (trim text)) = Some (JArray xs) \<longrightarrow>
      normalize text = Inr (map with_approved_null xs)) \<and>
   (\<forall>kvs k. get_prop (with_approved_null (JObject kvs)) k =
      (if k = js ''approved'' then Some JNull else map_of kvs k))"
proof -
  have a: "JSON_parse (unfence (trim text)) = None \<longrightarrow>
      normalize text =
        Inl (Error (js ''Failed to parse AI response as JSON:'' @ [10] @ take 500 (trim text)))"
    by (simp add: normalize_def)
  have b: "\<forall>v. JSON_parse (unfence (trim text)) = Some v \<and> (\<forall>xs. v \<noteq> JArray xs) \<longrightarrow>
      normalize text = Inl (Error (js ''AI response is not an array of findings''))"
  proof (intro allI impI)
    fix v
    assume "JSON_parse (unfence (trim text)) = Some v \<and> (\<forall>xs. v \<noteq> JArray xs)"
    then show "normalize text = Inl (Error (js ''AI response is not an array of findings''))"
      by (cases v) (simp_all add: normalize_def)
  qed
  have c: "\<forall>xs. JSON_parse (unfence (trim text)) = Some (JArray xs) \<longrightarrow>
      normalize text = Inr (map with_approved_null xs)"
    by (simp add: normalize_def)
  from a b c get_prop_with_approved_null show ?thesis by blast
qed

subsection \<open>The normalizer at concrete responses\<close>

lemma shaped_objects: "list_all finding_shaped [object2_plain, object1_approved]"
  by (simp add: finding_shaped_def object1_approved_def object2_plain_def mk_object_def
        obj_set_def is_array_index_def is_digit_def MAX_SAFE_INTEGER_def cast_eval js_def)

lemma forced_objects:
  "with_approved_null object1_approved = object1_unknown"
  "with_approved_null object2_plain = object2_unknown"
  by (simp_all add: with_approved_null_def object1_approved_def object1_unknown_def
        object2_plain_def object2_unknown_def obj_set_def is_array_index_def is_digit_def js_def)

lemma cast_objects:
  "cast_findings [object2_plain, object1_approved] =
     Some [finding2, finding1\<lparr>approved := Some True\<rparr>]"
  "cast_findings [object2_unknown, object1_unknown] = Some [finding2, finding1]"
  by (simp_all add: object1_approved_def object1_unknown_def object2_plain_def
        object2_unknown_def cast_eval finding1_def finding2_def js_def)

text \<open>C6 at a response of two findings, one without \<open>approved\<close> and one that the model
  marked approved: bare and fenced, the normalizer returns both with \<open>approved\<close> unknown.\<close>

theorem C6_witness:
  "list_all finding_shaped [object2_plain, object1_approved] \<and>
   normalize (JSON_stringify (JArray [object2_plain, object1_approved])) =
     Inr [object2_unknown, object1_unknown] \<and>
   normalize (code_fence True True True (JSON_stringify (JArray [object2_plain, object1_approved]))) =
     Inr [object2_unknown, object1_unknown] \<and>
   normalize (code_fence False False False (JSON_stringify (JArray [object2_plain, object1_approved]))) =
     Inr [object2_unknown, object1_unknown] \<and>
   cast_findings [object2_plain, object1_approved] =
     Some [finding2, finding1\<lparr>approved := Some True\<rparr>] \<and>
   cast_findings [object2_unknown, object1_unknown] = Some [finding2, finding1]"
  using C6_normalize_round_trip [OF shaped_objects, of True True True]
    C6_normalize_round_trip [OF shaped_objects, of False False False]
    shaped_objects cast_objects
  by (simp add: forced_objects)

lemma parse_id_only:
  "JSON_parse (unfence (trim text_id_only)) = Some (JArray [JObject [(js ''id'', JNumber 1)]])"
proof -
  have "trim text_id_only = text_id_only"
    by (simp add: trim_def text_id_only_def js_def is_space_def)
  moreover have "\<not> startsWith text_id_only (js ''```'')"
    by (simp add: text_id_only_def js_def startsWith_def)
  moreover have "JSON_parse text_id_only = Some (JArray [JObject [(js ''id'', JNumber 1)]])"
    by (simp add: text_id_only_def js_def json_eval)
  ultimately show ?thesis by (simp add: unfence_def)
qed

lemma forced_id_only:
  "with_approved_null (JObject [(js ''id'', JNumber 1)]) =
     JObject [(js ''id'', JNumber 1), (js ''approved'', JNull)]"
  by (simp add: with_approved_null_def obj_set_def is_array_index_def is_digit_def js_def)

lemma parse_object_text:
  "JSON_parse (unfence (trim (js ''{\"id\":1}''))) = Some (JObject [(js ''id'', JNumber 1)])"
proof -
  have "trim (js ''{\"id\":1}'') = js ''{\"id\":1}''"
    by (simp add: trim_def js_def is_space_def)
  moreover have "\<not> startsWith (js ''{\"id\":1}'') (js ''```'')"
    by (simp add: js_def startsWith_def)
  moreover have "JSON_parse (js ''{\"id\":1}'') = Some (JObject [(js ''id'', JNumber 1)])"
    by (simp add: js_def json_eval)
  ultimately show ?thesis by (simp add: unfence_def)
qed

theorem C2_witness:
  "normalize text_id_only = Inr [JObject [(js ''id'', JNumber 1), (js ''approved'', JNull)]] \<and>
   normalize (js ''{\"id\":1}'') = Inl (Error (js ''AI response is not an array of findings''))"
  using C2_normalize_checks_array_only [of text_id_only]
    C2_normalize_checks_array_only [of "js ''{\"id\":1}''"]
    parse_id_only parse_object_text
  by (simp add: forced_id_only)

text \<open>
  The claim C2 as stated fails: the response \<open>[{"id":1}]\<close> decodes to an array whose one
  record lacks severity, confidence, title, file, line, why and body, and the normalizer
  returns it as a findings list, with \<open>approved\<close> added.
\<close>

theorem C2_counterexample:
  "normalize text_id_only = Inr [JObject [(js ''id'', JNumber 1), (js ''approved'', JNull)]] \<and>
   get_prop (JObject [(js ''id'', JNumber 1), (js ''approved'', JNull)]) (js ''severity'') = None \<and>
   as_ReviewFinding (JObject [(js ''id'', JNumber 1), (js ''approved'', JNull)]) = None"
proof -
  have "normalize text_id_only = Inr [JObject [(js ''id'', JNumber 1), (js ''approved'', JNull)]]"
    using parse_id_only by (simp add: normalize_def forced_id_only)
  moreover have "get_prop (JObject [(js ''id'', JNumber 1), (js ''approved'', JNull)]) (js ''severity'') = None"
    by (simp add: get_prop_def js_def)
  moreover have "as_ReviewFinding (JObject [(js ''id'', JNumber 1), (js ''approved'', JNull)]) = None"
    by (simp add: cast_eval js_def)
  ultimately show ?thesis by blast
qed

section \<open>Delivery\<close>

lemma fst_bind_run:
  "fst (bind_run m k) = fst m @ (case snd m of Inl out \<Rightarrow> [] | Inr a \<Rightarrow> fst (k a))"
  by (cases m) (auto simp: bind_run_def split: sum.splits prod.splits)

lemma snd_bind_run:
  "snd (bind_run m k) = (case snd m of Inl out \<Rightarrow> Inl out | Inr a \<Rightarrow> snd (k a))"
  by (cases m) (auto simp: bind_run_def split: sum.splits prod.splits)

lemma run_simps [simp]:
  "fst (return_run a) = []" "snd (return_run a) = Inr a"
  "fst (stop_run out) = []" "snd (stop_run out) = Inl out"
  "fst (do_event e) = [e]" "snd (do_event e) = Inr ()"
  by (simp_all add: return_run_def stop_run_def do_event_def)

lemma those_eq_Some: "those xs = Some ys \<longleftrightarrow> xs = map Some ys"
proof (induction xs arbitrary: ys)
  case Nil
  show ?case by auto
next
  case (Cons x xs)
  show ?case
  proof (cases x)
    case None
    then show ?thesis by auto
  next
    case (Some y)
    have "those (x # xs) = Some ys \<longleftrightarrow> (\<exists>zs. those xs = Some zs \<and> ys = y # zs)"
      using Some by (cases "those xs") auto
    also have "\<dots> \<longleftrightarrow> (\<exists>zs. xs = map Some zs \<and> ys = y # zs)"
      using Cons by simp
    also have "\<dots> \<longleftrightarrow> x # xs = map Some ys"
      using Some by (cases ys) auto
    finally show ?thesis .
  qed
qed

text \<open>When the payload is built, every text of the fallback is built as well: the
  summary and the flat comments use the conversions the payload has used.\<close>

lemma fallback_formats:
  assumes "formatCommentBody f = Some b" and "summary_row f = Some row"
  shows "\<exists>c. fallbackCommentBody f = Some c"
  using assms
  by (auto simp: fallbackCommentBody_def summary_row_def bind_eq_Some_conv
        split: option.splits json.splits)

lemma payload_formats:
  assumes "review_payload_of review fs = Some payload"
  shows "\<exists>summaryBody bodies.
           formatSummaryBody review fs = Some summaryBody \<and>
           map fallbackCommentBody fs = map Some bodies"
proof -
  from assms obtain comments summaryBody where
    c: "those (map inline_comment_of fs) = Some comments" and
    s: "formatSummaryBody review fs = Some summaryBody"
    by (auto simp: review_payload_of_def split: option.splits)
  have each: "\<exists>c. fallbackCommentBody f = Some c" if f: "f \<in> set fs" for f
  proof -
    from c have "map inline_comment_of fs = map Some comments" by (simp add: those_eq_Some)
    then have "inline_comment_of f \<in> Some ` set comments"
      using f by (metis image_eqI list.set_map)
    then obtain b where b: "formatCommentBody f = Some b"
      by (auto simp: inline_comment_of_def)
    from f have ne: "fs \<noteq> []" by auto
    with s obtain rows where "those (map summary_row fs) = Some rows"
      by (auto simp: formatSummaryBody_def Let_def split: option.splits)
    then have "map summary_row fs = map Some rows" by (simp add: those_eq_Some)
    then have "summary_row f \<in> Some ` set rows"
      using f by (metis image_eqI list.set_map)
    then obtain row where "summary_row f = Some row" by auto
    with b show ?thesis by (rule fallback_formats)
  qed
  have "map fallbackCommentBody fs = map Some (map (\<lambda>f. the (fallbackCommentBody f)) fs)"
    using each by (induction fs) auto
  with s show ?thesis by blast
qed

lemma post_comments_run:
  assumes "map fallbackCommentBody fs = map Some bodies"
  shows "snd (post_comments w n owner rp k fs) = Inr ()"
    and "attempted (fst (post_comments w n owner rp k fs)) = map (gh_pr_comment n owner rp) bodies"
    and "\<forall>j < length fs.
           fst (post_comments w n owner rp k fs) ! j =
             HostWrite (gh_pr_comment n owner rp (bodies ! j)) (comment_reply w (k + j))"
  using assms
proof (induction fs arbitrary: bodies k)
  case Nil
  {
    case 1 show ?case by simp
  next
    case 2 then show ?case by simp
  next
    case 3 show ?case by simp
  }
next
  case (Cons f fs)
  {
    case 1
    then obtain b bs where b: "bodies = b # bs" "fallbackCommentBody f = Some b"
      "map fallbackCommentBody fs = map Some bs" by (cases bodies) auto
    with Cons(1) [of bs "Suc k"] show ?case by (simp add: snd_bind_run)
  next
    case 2
    then obtain b bs where b: "bodies = b # bs" "fallbackCommentBody f = Some b"
      "map fallbackCommentBody fs = map Some bs" by (cases bodies) auto
    with Cons(2) [of bs "Suc k"] show ?case by (simp add: fst_bind_run)
  next
    case 3
    then obtain b bs where b: "bodies = b # bs" "fallbackCommentBody f = Some b"
      "map fallbackCommentBody fs = map Some bs" by (cases bodies) auto
    show ?case
    proof (intro allI impI)
      fix j
      assume j: "j < length (f # fs)"
      show "fst (post_comments w n owner rp k (f # fs)) ! j =
          HostWrite (gh_pr_comment n owner rp (bodies ! j)) (comment_reply w (k + j))"
      proof (cases j)
        case 0
        with b show ?thesis by (simp add: fst_bind_run)
      next
        case (Suc i)
        with j have "i < length fs" by simp
        with Cons(3) [OF b(3), of "Suc k"] Suc b show ?thesis by (simp add: fst_bind_run)
      qed
    qed
  }
qed

lemma postReview_anchor:
  assumes "w_review_reply w = Some msg" and "anchor_failure msg"
    and "review_payload_of review fs = Some payload"
    and "formatSummaryBody review fs = Some summaryBody"
  shows "postReview w review fs =
     bind_run
       ([HostWrite (gh_api_create_review (repo_owner review) (repo_name review) (pr review) payload)
           (Some msg),
         HostWrite (gh_pr_comment (pr review) (repo_owner review) (repo_name review) summaryBody)
           (comment_reply w 0)], Inr ())
       (\<lambda>_. post_comments w (pr review) (repo_owner review) (repo_name review) (Suc 0) fs)"
  using assms by (simp add: postReview_def Let_def bind_run_def do_event_def split: prod.splits)

text \<open>
  C3. When the primary submission (made once the payload is built) fails with a message
  that has the anchor-validation signature, \<open>postReview\<close> returns normally after it has
  attempted, in this order, the review, the summary as one flat comment, and one flat
  comment for each approved finding: whatever the replies \<open>ok\<close> to the comment commands
  are, the comment of the \<open>j\<close>-th finding is attempted (it is the event at position
  \<open>j + 2\<close>), also after earlier comments have failed.
\<close>

theorem C3_fallback_best_effort:
  assumes "w_review_reply w = Some msg" and "anchor_failure msg"
    and "review_payload_of review approvedFindings = Some payload"
  shows "\<exists>summaryBody bodies.
           formatSummaryBody review approvedFindings = Some summaryBody \<and>
           map fallbackCommentBody approvedFindings = map Some bodies \<and>
           snd (postReview (w\<lparr>w_comment_ok := ok\<rparr>) review approvedFindings) = Inr () \<and>
           attempted (fst (postReview (w\<lparr>w_comment_ok := ok\<rparr>) review approvedFindings)) =
             gh_api_create_review (repo_owner review) (repo_name review) (pr review) payload
             # gh_pr_comment (pr review) (repo_owner review) (repo_name review) summaryBody
             # map (gh_pr_comment (pr review) (repo_owner review) (repo_name review)) bodies \<and>
           (\<forall>j < length approvedFindings.
              fst (postReview (w\<lparr>w_comment_ok := ok\<rparr>) review approvedFindings) ! (j + 2) =
                HostWrite (gh_pr_comment (pr review) (repo_owner review) (repo_name review)
                             (bodies ! j))
                  (if ok (j + 1) then None else Some (js ''Command failed'')))"
proof -
  let ?w = "w\<lparr>w_comment_ok := ok\<rparr>"
  from payload_formats [OF assms(3)] obtain summaryBody bodies where
    s: "formatSummaryBody review approvedFindings = Some summaryBody" and
    b: "map fallbackCommentBody approvedFindings = map Some bodies"
    by blast
  have r: "w_review_reply ?w = Some msg" using assms(1) by simp
  note p = postReview_anchor [OF r assms(2,3) s]
  note c = post_comments_run [OF b, of ?w "pr review" "repo_owner review" "repo_name review" "Suc 0"]
  have one: "snd (postReview ?w review approvedFindings) = Inr ()"
    unfolding p by (simp add: snd_bind_run c(1))
  have two: "attempted (fst (postReview ?w review approvedFindings)) =
             gh_api_create_review (repo_owner review) (repo_name review) (pr review) payload
             # gh_pr_comment (pr review) (repo_owner review) (repo_name review) summaryBody
             # map (gh_pr_comment (pr review) (repo_owner review) (repo_name review)) bodies"
    unfolding p by (simp add: fst_bind_run c(2))
  have three: "\<forall>j < length approvedFindings.
              fst (postReview ?w review approvedFindings) ! (j + 2) =
                HostWrite (gh_pr_comment (pr review) (repo_owner review) (repo_name review)
                             (bodies ! j))
                  (if ok (j + 1) then None else Some (js ''Command failed''))"
    unfolding p using c(3) by (simp add: fst_bind_run comment_reply_def)
  from s b one two three show ?thesis by blast
qed

lemma postReview_outcome:
  "snd (postReview w review fs) =
     (case review_payload_of review fs of
        None \<Rightarrow> Inl Uncaught
      | Some payload \<Rightarrow>
          (case w_review_reply w of
             None \<Rightarrow> Inr ()
           | Some msg \<Rightarrow> if anchor_failure msg then Inr () else Inl (Exit1 (PostingFailed msg))))"
proof (cases "review_payload_of review fs")
  case None
  then show ?thesis by (simp add: postReview_def Let_def)
next
  case (Some payload)
  from payload_formats [OF Some] obtain summaryBody bodies where
    s: "formatSummaryBody review fs = Some summaryBody" and
    b: "map fallbackCommentBody fs = map Some bodies"
    by blast
  show ?thesis
  proof (cases "w_review_reply w")
    case None
    with Some show ?thesis by (simp add: postReview_def Let_def snd_bind_run)
  next
    case (Some msg)
    show ?thesis
    proof (cases "anchor_failure msg")
      case True
      from postReview_anchor [OF Some True \<open>review_payload_of review fs = Some payload\<close> s]
        post_comments_run(1) [OF b]
      show ?thesis
        using Some True \<open>review_payload_of review fs = Some payload\<close>
        by (simp add: snd_bind_run)
    next
      case False
      with Some \<open>review_payload_of review fs = Some payload\<close> show ?thesis
        by (simp add: postReview_def Let_def snd_bind_run)
    qed
  qed
qed

text \<open>
  C4 (as the code has it). \<open>postReview\<close> ends the process with status 1 exactly when the
  primary submission fails with a message that has not the anchor-validation signature;
  the fallback is not attempted then (the review is the only host call). When the primary
  submission fails with that signature the fallback runs and \<open>postReview\<close> returns
  normally, whatever becomes of the flat comments. The only other way out is a TypeError
  while the payload is built from findings whose properties cannot be printed, before any
  host call.
\<close>

theorem C4_fatal_iff_unclassified_primary_failure:
  "(snd (postReview w review approvedFindings) = Inl out \<longleftrightarrow>
      (review_payload_of review approvedFindings = None \<and> out = Uncaught) \<or>
      (\<exists>payload msg. review_payload_of review approvedFindings = Some payload \<and>
         w_review_reply w = Some msg \<and> \<not> anchor_failure msg \<and>
         out = Exit1 (PostingFailed msg))) \<and>
   (review_payload_of review approvedFindings = None \<longrightarrow>
      fst (postReview w review approvedFindings) = []) \<and>
   (\<forall>payload msg. review_payload_of review approvedFindings = Some payload \<and>
      w_review_reply w = Some msg \<and> \<not> anchor_failure msg \<longrightarrow>
      attempted (fst (postReview w review approvedFindings)) =
        [gh_api_create_review (repo_owner review) (repo_name review) (pr review) payload]) \<and>
   (\<forall>payload msg. review_payload_of review approvedFindings = Some payload \<and>
      w_review_reply w = Some msg \<and> anchor_failure msg \<longrightarrow>
      snd (postReview w review approvedFindings) = Inr ())"
proof -
  have a: "snd (postReview w review approvedFindings) = Inl out \<longleftrightarrow>
      (review_payload_of review approvedFindings = None \<and> out = Uncaught) \<or>
      (\<exists>payload msg. review_payload_of review approvedFindings = Some payload \<and>
         w_review_reply w = Some msg \<and> \<not> anchor_failure msg \<and>
         out = Exit1 (PostingFailed msg))"
    by (auto simp: postReview_outcome split: option.splits)
  have b: "review_payload_of review approvedFindings = None \<longrightarrow>
      fst (postReview w review approvedFindings) = []"
    by (simp add: postReview_def Let_def)
  have c: "\<forall>payload msg. review_payload_of review approvedFindings = Some payload \<and>
      w_review_reply w = Some msg \<and> \<not> anchor_failure msg \<longrightarrow>
      attempted (fst (postReview w review approvedFindings)) =
        [gh_api_create_review (repo_owner review) (repo_name review) (pr review) payload]"
    by (simp add: postReview_def Let_def fst_bind_run)
  have d: "\<forall>payload msg. review_payload_of review approvedFindings = Some payload \<and>
      w_review_reply w = Some msg \<and> anchor_failure msg \<longrightarrow>
      snd (postReview w review approvedFindings) = Inr ()"
    by (simp add: postReview_outcome)
  from a b c d show ?thesis by blast
qed

section \<open>The report and the approval session\<close>

text \<open>Every finding the command holds is an object.\<close>

lemma findings_are_objects:
  "snd (analyze w d g c) = Inr fs \<Longrightarrow> \<forall>f \<in> set fs. \<exists>kvs. f = JObject kvs"
  by (auto simp: analyze_def reviewWithAI_def normalize_def with_approved_null_def Let_def
        split: api_reply.splits option.splits json.splits sum.splits js_error.splits)

lemma printable_object: "printable f \<Longrightarrow> \<exists>kvs. f = JObject kvs"
  by (cases f) (simp_all add: printable_def has_tag_def get_prop_def)

lemma printable_key: "printable f \<Longrightarrow> template (get_prop f (js ''severity'')) \<noteq> None"
  by (auto simp: printable_def has_tag_def template_def split: option.splits json.splits)

lemma printable_promptable: "printable f \<Longrightarrow> promptable f"
  by (simp add: printable_def promptable_def)

lemma sort_findings_printable:
  "list_all printable fs \<Longrightarrow> sort_findings fs = Some (sort_by_severity fs)"
  using printable_key by (auto simp: sort_findings_def list_all_iff)

lemma printable_sorted: "list_all printable fs \<Longrightarrow> list_all printable (sort_by_severity fs)"
  by (simp add: list_all_iff set_sort_by_severity)

lemma printFindings_printable: "list_all printable fs \<Longrightarrow> printFindings fs = return_run ()"
  by (simp add: printFindings_def sort_findings_printable printable_sorted)

text \<open>The report goes through exactly when every finding is printable: the hypothesis
  \<open>list_all printable\<close> leaves out the runs that end with a TypeError there, and no
  other.\<close>

lemma report_iff_printable:
  "(\<exists>sorted_fs. sort_findings fs = Some sorted_fs \<and> snd (printFindings sorted_fs) = Inr ()) \<longleftrightarrow>
     list_all printable fs"
proof
  assume "list_all printable fs"
  then show "\<exists>sorted_fs. sort_findings fs = Some sorted_fs \<and> snd (printFindings sorted_fs) = Inr ()"
    by (simp add: sort_findings_printable printFindings_printable printable_sorted)
next
  assume "\<exists>sorted_fs. sort_findings fs = Some sorted_fs \<and> snd (printFindings sorted_fs) = Inr ()"
  then obtain sorted_fs where s: "sort_findings fs = Some sorted_fs"
    and p: "snd (printFindings sorted_fs) = Inr ()" by blast
  from s have e: "sorted_fs = sort_by_severity fs"
    by (simp add: sort_findings_def split: if_splits)
  from p obtain again where "sort_findings sorted_fs = Some again" and a: "list_all printable again"
    by (auto simp: printFindings_def split: option.splits if_splits)
  then have "again = sort_by_severity sorted_fs"
    by (simp add: sort_findings_def split: if_splits)
  with a e show "list_all printable fs"
    by (simp add: list_all_iff set_sort_by_severity)
qed

lemma get_prop_set_prop:
  "get_prop (set_prop (JObject kvs) k v) k' = (if k' = k then Some v else map_of kvs k')"
  by (simp add: get_prop_def set_prop_def map_of_obj_set)

lemma get_prop_decided:
  assumes "k \<noteq> js ''approved''" and "k \<noteq> js ''body''"
  shows "get_prop (decided a f) k = get_prop f k"
proof (cases f)
  case (JObject kvs)
  with assms show ?thesis
    by (cases a) (simp_all add: decided_def set_prop_def get_prop_def map_of_obj_set)
qed (cases a; simp add: decided_def set_prop_def)+

lemma key_names2:
  "js ''id'' \<noteq> js ''body''" "js ''severity'' \<noteq> js ''body''"
  "js ''confidence'' \<noteq> js ''body''" "js ''title'' \<noteq> js ''body''"
  "js ''file'' \<noteq> js ''body''" "js ''line'' \<noteq> js ''body''"
  "js ''why'' \<noteq> js ''body''" "js ''approved'' \<noteq> js ''body''"
  by (simp_all add: js_def)

lemma printable_decided: "printable f \<Longrightarrow> printable (decided a f)"
  by (simp add: printable_def has_tag_def get_prop_decided key_names key_names2)

lemma approved_decided:
  assumes "f = JObject kvs"
  shows "get_prop (decided a f) (js ''approved'') = Some (JBool (a \<noteq> skip))"
  using assms by (cases a) (simp_all add: decided_def set_prop_def get_prop_def map_of_obj_set)

lemma read_only_decide: "list_all read_only (fst (decide w k f))"
  by (simp add: decide_def split: action.splits)

lemma snd_decide: "promptable f \<Longrightarrow> snd (decide w k f) = Inr (decided (w_action w k) f)"
  by (simp add: decide_def)

lemma read_only_approval_loop: "list_all read_only (fst (approval_loop w k fs))"
proof (induction fs arbitrary: k)
  case Nil
  show ?case by simp
next
  case (Cons f fs)
  from Cons [of "Suc k"] read_only_decide [of w k f] show ?case
    by (simp add: fst_bind_run split: sum.splits)
qed

lemma snd_approval_loop:
  "list_all promptable fs \<Longrightarrow> snd (approval_loop w k fs) = Inr (decisions w k fs)"
proof (induction fs arbitrary: k)
  case Nil
  show ?case by simp
next
  case (Cons f fs)
  from Cons.prems Cons.IH [of "Suc k"] show ?case
    by (simp add: snd_bind_run snd_decide)
qed

lemma length_decisions: "length (decisions w k fs) = length fs"
  by (induction fs arbitrary: k) simp_all

lemma decisions_nth:
  "j < length fs \<Longrightarrow> decisions w k fs ! j = decided (w_action w (k + j)) (fs ! j)"
proof (induction fs arbitrary: k j)
  case Nil
  then show ?case by simp
next
  case (Cons f fs)
  show ?case
  proof (cases j)
    case 0
    then show ?thesis by simp
  next
    case (Suc i)
    with Cons.prems have "i < length fs" by simp
    from Cons.IH [OF this, of "Suc k"] Suc show ?thesis by simp
  qed
qed

lemma printable_decisions: "list_all printable fs \<Longrightarrow> list_all printable (decisions w k fs)"
  by (induction fs arbitrary: k) (simp_all add: printable_decided)

lemma ids_decisions:
  "map (\<lambda>f. get_prop f (js ''id'')) (decisions w k fs) = map (\<lambda>f. get_prop f (js ''id'')) fs"
  by (induction fs arbitrary: k) (simp_all add: get_prop_decided key_names key_names2)

lemma printable_approved: "list_all printable fs \<Longrightarrow> list_all printable (approved_of fs)"
  by (simp add: approved_of_def list_all_iff)

section \<open>The order of effects in a run\<close>

lemma guarded_True: "guarded P True es"
  by (induction es) simp_all

lemma guarded_read_only:
  "list_all read_only es \<Longrightarrow>
   guarded (is_review_record w n) b (es @ es') = guarded (is_review_record w n) b es'"
proof (induction es arbitrary: b)
  case Nil
  show ?case by simp
next
  case (Cons e es)
  then show ?case by (cases e) (simp_all add: is_review_record_def)
qed

lemma read_only_detectRepo: "list_all read_only (fst (detectRepo w))"
  by (simp add: detectRepo_def)

lemma read_only_resolve_by_number: "list_all read_only (fst (resolve_by_number w n))"
  by (simp add: resolve_by_number_def fst_bind_run getPRInfo_def detectRepo_def split: option.splits sum.splits)

lemma read_only_resolve_by_list: "list_all read_only (fst (resolve_by_list w))"
  by (simp add: resolve_by_list_def fst_bind_run Let_def read_only_resolve_by_number split: sum.splits)

lemma read_only_resolvePR: "list_all read_only (fst (resolvePR w))"
  by (simp add: resolvePR_def fst_bind_run Let_def read_only_resolve_by_number
        read_only_resolve_by_list read_only_detectRepo split: sum.splits option.splits)

lemma read_only_determine_repo: "list_all read_only (fst (determine_repo w p))"
  by (simp add: determine_repo_def read_only_detectRepo)

lemma read_only_printFindings: "fst (printFindings fs) = []"
  by (simp add: printFindings_def split: option.splits)

lemma guarded_bind_read_only:
  "list_all read_only (fst m) \<Longrightarrow>
   guarded (is_review_record w n) b (fst (bind_run m k)) =
     (case snd m of Inl out \<Rightarrow> True | Inr a \<Rightarrow> guarded (is_review_record w n) b (fst (k a)))"
  by (simp add: fst_bind_run guarded_read_only split: sum.splits)

lemma review_path:
  "reviewPath w n = w_cwd w @ js ''/.coder/reviews/pr-'' @ int_to_string n @ js ''-review.json''"
  by (simp add: reviewPath_def reviewsDir_def js_def)

lemma guarded_save_then:
  "pr rf = pr_number p \<Longrightarrow>
   guarded (is_review_record w (pr_number p)) False (fst (bind_run (save_review w p rf) k))"
  by (simp add: fst_bind_run save_review_def is_review_record_def guarded_True review_path)

lemma pr_make_review_file: "pr (make_review_file w p r sfs fs) = pr_number p"
  by (simp add: make_review_file_def)

lemma guarded_approve_and_post:
  "guarded (is_review_record w (pr_number p)) False (fst (approve_and_post w p sorted_fs))"
  unfolding approve_and_post_def Let_def interactiveApproval_def
  by (simp add: guarded_bind_read_only read_only_approval_loop read_only_printFindings
        read_only_determine_repo guarded_save_then pr_make_review_file split: sum.splits)

lemma read_only_getPRDiff: "list_all read_only (fst (getPRDiff w n b))"
  by (simp add: getPRDiff_def)

lemma read_only_getChangedFiles: "list_all read_only (fst (getChangedFiles w n b))"
  by (simp add: getChangedFiles_def)

lemma guarded_analyze_then:
  "guarded (is_review_record w n) b (fst (bind_run (analyze w d g c) k)) =
     (case snd (analyze w d g c) of Inl out \<Rightarrow> True
      | Inr a \<Rightarrow> guarded (is_review_record w n) b (fst (k a)))"
  by (simp add: fst_bind_run analyze_def is_review_record_def split: sum.splits)

lemma guarded_review_pr:
  "guarded (is_review_record w (pr_number p)) False (fst (review_pr w p))"
  unfolding review_pr_def Let_def
  by (simp add: guarded_bind_read_only read_only_getPRDiff read_only_getChangedFiles
        guarded_analyze_then guarded_approve_and_post read_only_printFindings
        split: sum.splits option.splits)

lemma fst_finish [simp]: "fst (finish r) = fst r"
  by (cases r) (simp add: finish_def split: sum.splits)

lemma snd_finish: "snd (finish r) = (case snd r of Inl out \<Rightarrow> out | Inr out \<Rightarrow> out)"
  by (cases r) (simp add: finish_def split: sum.splits)

lemma fst_review_command:
  "fst (review_command w) =
     (if \<not> truthy (w_anthropicApiKey w) then []
      else fst (resolvePR w) @ (case snd (resolvePR w) of Inl out \<Rightarrow> [] | Inr p \<Rightarrow> fst (review_pr w p)))"
  by (simp add: review_command_def fst_bind_run)

lemma snd_review_command:
  "snd (review_command w) =
     (if \<not> truthy (w_anthropicApiKey w) then Exit1 MissingApiKey
      else (case snd (resolvePR w) of Inl out \<Rightarrow> out
            | Inr p \<Rightarrow> (case snd (review_pr w p) of Inl out \<Rightarrow> out | Inr out \<Rightarrow> out)))"
  by (simp add: review_command_def snd_bind_run snd_finish split: sum.splits)

lemma guarded_split:
  "guarded P b es \<Longrightarrow> es = pre @ e # post \<Longrightarrow> host_mutating e \<Longrightarrow>
   b \<or> (\<exists>x \<in> set pre. P x)"
proof (induction pre arbitrary: es b)
  case Nil
  then show ?case by simp
next
  case (Cons x pre)
  then show ?case by (cases "host_mutating x") (auto split: if_splits)
qed

lemma read_only_not:
  "list_all read_only es \<Longrightarrow> \<forall>e \<in> set es. \<not> host_mutating e \<and> \<not> touches_disk e \<and> \<not> is_generation e"
proof (induction es)
  case Nil
  show ?case by simp
next
  case (Cons e es)
  then show ?case by (cases e) simp_all
qed

text \<open>
  C1. In every run of the review command, whatever the world answers and whatever the
  findings are, every host-mutating call (the review submission, a flat comment) comes
  after the write of the review record of the pull request \<open>n\<close> under review to the file
  \<open>.coder/reviews/pr-<n>-review.json\<close> of the working directory: the record is on disk
  before delivery starts, and stays there when delivery fails.
\<close>

theorem C1_record_written_before_delivery:
  assumes "fst (review_command w) = pre @ e # post" and "host_mutating e"
  shows "\<exists>p rf. snd (resolvePR w) = Inr p \<and> pr rf = pr_number p \<and>
           WriteFile (w_cwd w @ js ''/.coder/reviews/pr-'' @ int_to_string (pr_number p) @
                      js ''-review.json'') rf \<in> set pre"
proof (cases "snd (resolvePR w)")
  case (Inl out)
  then have "list_all read_only (fst (review_command w))"
    using read_only_resolvePR [of w] by (simp add: fst_review_command)
  from read_only_not [OF this] assms show ?thesis by auto
next
  case (Inr p)
  have "guarded (is_review_record w (pr_number p)) False (fst (review_command w))"
    using Inr read_only_resolvePR [of w] guarded_review_pr [of w p]
    by (simp add: fst_review_command guarded_read_only)
  from guarded_split [OF this assms]
  obtain x where xin: "x \<in> set pre" and rec: "is_review_record w (pr_number p) x" by auto
  from rec obtain rf where
    "x = WriteFile (w_cwd w @ js ''/.coder/reviews/pr-'' @ int_to_string (pr_number p) @
                    js ''-review.json'') rf" and "pr rf = pr_number p"
    by (cases x) (simp_all add: is_review_record_def)
  with xin Inr show ?thesis by blast
qed

lemma fst_getPRDiff: "fst (getPRDiff w n b) = [HostRead (git_fetch_pr n), HostRead (git_diff b n)]"
  by (simp add: getPRDiff_def)

lemma snd_getPRDiff: "snd (getPRDiff w n b) = (case w_git_diff w of None \<Rightarrow> Inl Uncaught | Some d \<Rightarrow> Inr d)"
  by (simp add: getPRDiff_def)

lemma fst_getChangedFiles: "fst (getChangedFiles w n b) = [HostRead (git_diff_stat b n)]"
  by (simp add: getChangedFiles_def)

lemma snd_getChangedFiles:
  "snd (getChangedFiles w n b) = (case w_git_diff_stat w of None \<Rightarrow> Inl Uncaught | Some d \<Rightarrow> Inr d)"
  by (simp add: getChangedFiles_def)

lemma fst_analyze: "fst (analyze w d g c) = [Generate g d c]"
  by (simp add: analyze_def)

text \<open>The run up to the report, and what follows it.\<close>

lemma review_command_report:
  assumes "reaches_report w p fs"
  shows "\<exists>d c. w_git_diff w = Some d \<and> w_git_diff_stat w = Some c \<and>
           fst (review_command w) =
             fst (resolvePR w) @
             [HostRead (git_fetch_pr (pr_number p)), HostRead (git_diff (pr_baseBranch p) (pr_number p)),
              HostRead (git_diff_stat (pr_baseBranch p) (pr_number p)),
              Generate (loadGuidelines w) (truncate_diff d) c] @
             (if w_post w then fst (approve_and_post w p (sort_by_severity fs)) else []) \<and>
           snd (review_command w) =
             (if w_post w then (case snd (approve_and_post w p (sort_by_severity fs)) of
                                  Inl out \<Rightarrow> out | Inr out \<Rightarrow> out)
              else Exit0 Reported)"
proof -
  from assms obtain d c where
    k: "truthy (w_anthropicApiKey w)" and r: "snd (resolvePR w) = Inr p" and
    d: "w_git_diff w = Some d" and c: "w_git_diff_stat w = Some c" and t: "trim d \<noteq> []" and
    a: "snd (analyze w (truncate_diff d) (loadGuidelines w) c) = Inr fs" and n: "fs \<noteq> []" and
    pr: "list_all printable fs"
    by (auto simp: reaches_report_def)
  note s = sort_findings_printable [OF pr] printFindings_printable [OF printable_sorted [OF pr]]
  have "fst (review_pr w p) =
          [HostRead (git_fetch_pr (pr_number p)), HostRead (git_diff (pr_baseBranch p) (pr_number p)),
           HostRead (git_diff_stat (pr_baseBranch p) (pr_number p)),
           Generate (loadGuidelines w) (truncate_diff d) c] @
          (if w_post w then fst (approve_and_post w p (sort_by_severity fs)) else [])"
    using d c t a n
    by (simp add: review_pr_def Let_def fst_bind_run fst_getPRDiff snd_getPRDiff
          fst_getChangedFiles snd_getChangedFiles fst_analyze s)
  moreover have "snd (review_pr w p) =
      (if w_post w then snd (approve_and_post w p (sort_by_severity fs)) else Inl (Exit0 Reported))"
    using d c t a n
    by (simp add: review_pr_def Let_def snd_bind_run snd_getPRDiff snd_getChangedFiles s)
  ultimately show ?thesis
    using k r d c
    by (simp add: review_command_def fst_bind_run snd_bind_run snd_finish)
qed

lemma approve_and_post_fst:
  assumes "list_all printable sfs"
  shows "fst (approve_and_post w p sfs) =
     fst (approval_loop w 0 sfs) @
     (let fs = decisions w 0 sfs in
      if approved_of fs = [] then []
      else Prompt (ConfirmPost (length (approved_of fs)) (pr_number p)) #
        (if \<not> w_confirm_post w then []
         else fst (determine_repo w p) @
           (case snd (determine_repo w p) of Inl out \<Rightarrow> []
            | Inr r \<Rightarrow> if r = [] then []
                else fst (save_review w p (make_review_file w p r sfs fs)) @
                  (case snd (save_review w p (make_review_file w p r sfs fs)) of Inl out \<Rightarrow> []
                   | Inr u \<Rightarrow> fst (postReview w (make_review_file w p r sfs fs) (approved_of fs))))))"
proof -
  from assms have pm: "list_all promptable sfs"
    by (simp add: list_all_iff printable_promptable)
  have pf: "printFindings (approved_of (decisions w 0 sfs)) = return_run ()"
    by (intro printFindings_printable printable_approved printable_decisions assms)
  show ?thesis
    by (simp add: approve_and_post_def interactiveApproval_def fst_bind_run snd_bind_run Let_def
          snd_approval_loop [OF pm] pf split: sum.splits)
qed

lemma approve_and_post_snd:
  assumes "list_all printable sfs"
  shows "snd (approve_and_post w p sfs) =
     (let fs = decisions w 0 sfs in
      if approved_of fs = [] then Inl (Exit0 NothingApproved)
      else if \<not> w_confirm_post w then Inl (Exit0 Cancelled)
      else (case snd (determine_repo w p) of Inl out \<Rightarrow> Inl out
            | Inr r \<Rightarrow> if r = [] then Inl (Exit1 CannotDetermineRepo)
                else (case snd (save_review w p (make_review_file w p r sfs fs)) of Inl out \<Rightarrow> Inl out
                   | Inr u \<Rightarrow> (case snd (postReview w (make_review_file w p r sfs fs) (approved_of fs)) of
                        Inl out \<Rightarrow> Inl out | Inr u \<Rightarrow> Inl (Exit0 Posted)))))"
proof -
  from assms have pm: "list_all promptable sfs"
    by (simp add: list_all_iff printable_promptable)
  have pf: "printFindings (approved_of (decisions w 0 sfs)) = return_run ()"
    by (intro printFindings_printable printable_approved printable_decisions assms)
  show ?thesis
    by (simp add: approve_and_post_def interactiveApproval_def fst_bind_run snd_bind_run Let_def
          snd_approval_loop [OF pm] pf split: sum.splits)
qed

text \<open>
  C8. When the run gets to the approval session and no finding is approved after it, the
  command returns with exit code 0 at "nothing to post", and its trace holds no
  host-mutating call (no review submission, no comment) and no write to the disk.
\<close>

theorem C8_nothing_approved:
  assumes "reaches_report w p fs" and "w_post w" and "approved_of (after_approval w fs) = []"
  shows "snd (review_command w) = Exit0 NothingApproved \<and>
         (\<forall>e \<in> set (fst (review_command w)). \<not> host_mutating e \<and> \<not> touches_disk e)"
proof -
  from assms(1) have pr: "list_all printable (sort_by_severity fs)"
    by (simp add: reaches_report_def printable_sorted)
  from review_command_report [OF assms(1)] obtain d c where
    tr: "fst (review_command w) =
           fst (resolvePR w) @
           [HostRead (git_fetch_pr (pr_number p)), HostRead (git_diff (pr_baseBranch p) (pr_number p)),
            HostRead (git_diff_stat (pr_baseBranch p) (pr_number p)),
            Generate (loadGuidelines w) (truncate_diff d) c] @
           fst (approve_and_post w p (sort_by_severity fs))" and
    out: "snd (review_command w) =
           (case snd (approve_and_post w p (sort_by_severity fs)) of Inl out \<Rightarrow> out | Inr out \<Rightarrow> out)"
    using assms(2) by auto
  from assms(3) have ap: "fst (approve_and_post w p (sort_by_severity fs)) =
      fst (approval_loop w 0 (sort_by_severity fs))"
    by (simp add: approve_and_post_fst [OF pr] after_approval_def)
  from assms(3) have "snd (approve_and_post w p (sort_by_severity fs)) = Inl (Exit0 NothingApproved)"
    by (simp add: approve_and_post_snd [OF pr] after_approval_def)
  with out have "snd (review_command w) = Exit0 NothingApproved" by simp
  moreover have "\<forall>e \<in> set (fst (review_command w)). \<not> host_mutating e \<and> \<not> touches_disk e"
    using read_only_not [OF read_only_resolvePR, of w]
      read_only_not [OF read_only_approval_loop, of w 0 "sort_by_severity fs"]
    by (auto simp: tr ap)
  ultimately show ?thesis by simp
qed

text \<open>
  C10. When the operator declines the final confirmation, the command returns with exit
  code 0 at "Cancelled", and its trace holds no host-mutating call and neither the
  \<open>mkdir\<close> of the reviews directory nor the write of the review record.
\<close>

theorem C10_cancel_leaves_no_trace:
  assumes "reaches_report w p fs" and "w_post w" and "approved_of (after_approval w fs) \<noteq> []"
    and "\<not> w_confirm_post w"
  shows "snd (review_command w) = Exit0 Cancelled \<and>
         (\<forall>e \<in> set (fst (review_command w)). \<not> host_mutating e \<and> \<not> touches_disk e)"
proof -
  from assms(1) have pr: "list_all printable (sort_by_severity fs)"
    by (simp add: reaches_report_def printable_sorted)
  from review_command_report [OF assms(1)] obtain d c where
    tr: "fst (review_command w) =
           fst (resolvePR w) @
           [HostRead (git_fetch_pr (pr_number p)), HostRead (git_diff (pr_baseBranch p) (pr_number p)),
            HostRead (git_diff_stat (pr_baseBranch p) (pr_number p)),
            Generate (loadGuidelines w) (truncate_diff d) c] @
           fst (approve_and_post w p (sort_by_severity fs))" and
    out: "snd (review_command w) =
           (case snd (approve_and_post w p (sort_by_severity fs)) of Inl out \<Rightarrow> out | Inr out \<Rightarrow> out)"
    using assms(2) by auto
  from assms(3,4) have ap: "fst (approve_and_post w p (sort_by_severity fs)) =
      fst (approval_loop w 0 (sort_by_severity fs)) @
      [Prompt (ConfirmPost (length (approved_of (after_approval w fs))) (pr_number p))]"
    by (simp add: approve_and_post_fst [OF pr] after_approval_def Let_def)
  from assms(3,4) have "snd (approve_and_post w p (sort_by_severity fs)) = Inl (Exit0 Cancelled)"
    by (simp add: approve_and_post_snd [OF pr] after_approval_def Let_def)
  with out have "snd (review_command w) = Exit0 Cancelled" by simp
  moreover have "\<forall>e \<in> set (fst (review_command w)). \<not> host_mutating e \<and> \<not> touches_disk e"
    using read_only_not [OF read_only_resolvePR, of w]
      read_only_not [OF read_only_approval_loop, of w 0 "sort_by_severity fs"]
    by (auto simp: tr ap)
  ultimately show ?thesis by simp
qed

lemma review_pr_blank_diff:
  assumes "w_git_diff w = Some d" and "trim d = []"
  shows "list_all read_only (fst (review_pr w p))"
    and "w_git_diff_stat w = Some c \<Longrightarrow> snd (review_pr w p) = Inl (Exit0 NothingToReview)"
  using assms
  by (simp_all add: review_pr_def Let_def fst_bind_run snd_bind_run fst_getPRDiff snd_getPRDiff
        fst_getChangedFiles snd_getChangedFiles split: option.splits)

text \<open>
  C7. When the diff that was fetched is empty or blank, no run calls the generation
  capability; and when the run got as far as the diff (the API key is set, the pull
  request resolved, the changed-files summary fetched with the diff), the command returns
  with exit code 0 at "No changes found", a success.
\<close>

theorem C7_empty_diff_skips_generation:
  assumes "w_git_diff w = Some d" and "trim d = []"
  shows "(\<forall>e \<in> set (fst (review_command w)). \<not> is_generation e) \<and>
         (truthy (w_anthropicApiKey w) \<and> snd (resolvePR w) = Inr p \<and> w_git_diff_stat w = Some c
            \<longrightarrow> snd (review_command w) = Exit0 NothingToReview)"
proof -
  have "list_all read_only (fst (review_command w))"
    using read_only_resolvePR [of w] review_pr_blank_diff(1) [OF assms]
    by (simp add: fst_review_command split: sum.splits)
  from read_only_not [OF this] have "\<forall>e \<in> set (fst (review_command w)). \<not> is_generation e"
    by blast
  moreover have "truthy (w_anthropicApiKey w) \<and> snd (resolvePR w) = Inr p \<and>
      w_git_diff_stat w = Some c \<longrightarrow> snd (review_command w) = Exit0 NothingToReview"
    using review_pr_blank_diff(2) [OF assms, of c p]
    by (simp add: snd_review_command)
  ultimately show ?thesis by blast
qed

lemma posting_trace:
  assumes "reaches_report w p fs" and "w_post w" and "w_confirm_post w"
    and "approved_of (after_approval w fs) \<noteq> []"
    and "snd (determine_repo w p) = Inr r" and "r \<noteq> []" and "w_write_ok w"
    and "rf = make_review_file w p r (sort_by_severity fs) (after_approval w fs)"
  shows "\<exists>pre. fst (review_command w) =
            pre @ [WriteFile (reviewPath w (pr_number p)) rf] @
            fst (postReview w rf (approved_of (after_approval w fs))) \<and>
            list_all (\<lambda>e. \<not> host_mutating e) pre"
proof -
  from assms(1) have pr: "list_all printable (sort_by_severity fs)"
    by (simp add: reaches_report_def printable_sorted)
  from review_command_report [OF assms(1)] obtain d c where
    tr: "fst (review_command w) =
           fst (resolvePR w) @
           [HostRead (git_fetch_pr (pr_number p)), HostRead (git_diff (pr_baseBranch p) (pr_number p)),
            HostRead (git_diff_stat (pr_baseBranch p) (pr_number p)),
            Generate (loadGuidelines w) (truncate_diff d) c] @
           fst (approve_and_post w p (sort_by_severity fs))"
    using assms(2) by auto
  have ap: "fst (approve_and_post w p (sort_by_severity fs)) =
      fst (approval_loop w 0 (sort_by_severity fs)) @
      Prompt (ConfirmPost (length (approved_of (after_approval w fs))) (pr_number p)) #
      fst (determine_repo w p) @
      [Mkdir (reviewsDir w), WriteFile (reviewPath w (pr_number p)) rf] @
      fst (postReview w rf (approved_of (after_approval w fs)))"
    using assms(3-7)
    by (simp add: approve_and_post_fst [OF pr] after_approval_def Let_def save_review_def assms(8))
  let ?pre = "fst (resolvePR w) @
           [HostRead (git_fetch_pr (pr_number p)), HostRead (git_diff (pr_baseBranch p) (pr_number p)),
            HostRead (git_diff_stat (pr_baseBranch p) (pr_number p)),
            Generate (loadGuidelines w) (truncate_diff d) c] @
           fst (approval_loop w 0 (sort_by_severity fs)) @
           Prompt (ConfirmPost (length (approved_of (after_approval w fs))) (pr_number p)) #
           fst (determine_repo w p) @ [Mkdir (reviewsDir w)]"
  have "fst (review_command w) = ?pre @ [WriteFile (reviewPath w (pr_number p)) rf] @
            fst (postReview w rf (approved_of (after_approval w fs)))"
    by (simp add: tr ap)
  moreover have "list_all (\<lambda>e. \<not> host_mutating e) ?pre"
    using read_only_not [OF read_only_resolvePR, of w]
      read_only_not [OF read_only_approval_loop, of w 0 "sort_by_severity fs"]
      read_only_not [OF read_only_determine_repo, of w p]
    by (auto simp: list_all_iff)
  ultimately show ?thesis by blast
qed

lemma posting_outcome:
  assumes "reaches_report w p fs" and "w_post w" and "w_confirm_post w"
    and "approved_of (after_approval w fs) \<noteq> []"
    and "snd (determine_repo w p) = Inr r" and "r \<noteq> []" and "w_write_ok w"
    and "rf = make_review_file w p r (sort_by_severity fs) (after_approval w fs)"
  shows "snd (review_command w) =
           (case snd (postReview w rf (approved_of (after_approval w fs))) of
              Inl out \<Rightarrow> out | Inr u \<Rightarrow> Exit0 Posted)"
proof -
  from assms(1) have pr: "list_all printable (sort_by_severity fs)"
    by (simp add: reaches_report_def printable_sorted)
  from review_command_report [OF assms(1)] assms(2)
  have "snd (review_command w) =
      (case snd (approve_and_post w p (sort_by_severity fs)) of Inl out \<Rightarrow> out | Inr out \<Rightarrow> out)"
    by auto
  then show ?thesis
    using assms(3-7)
    by (simp add: approve_and_post_snd [OF pr] after_approval_def Let_def save_review_def assms(8)
          split: sum.splits)
qed

text \<open>
  C9. In a run that gets to the posting (findings reported, posting requested, at least
  one finding approved, the operator confirms, the repository is known, the disk accepts
  the write), the record \<open>rf\<close> written to \<open>.coder/reviews/pr-<n>-review.json\<close> before the
  delivery holds every finding of the analysis (as many, with the same ids, in the order
  of the sort), each as it was but for the operator's decision: \<open>approved\<close> true after
  approve, false after skip, and true with the body replaced by what was typed (kept when
  nothing was typed) after edit. The delivery call receives the findings of the record
  with \<open>approved\<close> true, and no other.
\<close>

theorem C9_record_holds_all_delivery_gets_approved:
  assumes "reaches_report w p fs" and "w_post w" and "w_confirm_post w"
    and "approved_of (after_approval w fs) \<noteq> []"
    and "snd (determine_repo w p) = Inr r" and "r \<noteq> []" and "w_write_ok w"
    and "rf = make_review_file w p r (sort_by_severity fs) (after_approval w fs)"
  shows "(\<exists>pre. fst (review_command w) =
            pre @
            [WriteFile (w_cwd w @ js ''/.coder/reviews/pr-'' @ int_to_string (pr_number p) @
                        js ''-review.json'') rf] @
            fst (postReview w rf
                   (filter (\<lambda>f. get_prop f (js ''approved'') = Some (JBool True)) (findings rf))) \<and>
            list_all (\<lambda>e. \<not> host_mutating e) pre) \<and>
         length (findings rf) = length fs \<and>
         mset (map (\<lambda>f. get_prop f (js ''id'')) (findings rf)) =
           mset (map (\<lambda>f. get_prop f (js ''id'')) fs) \<and>
         (\<forall>k < length fs.
            findings rf ! k =
              (case w_action w k of
                 approve \<Rightarrow> set_prop (sort_by_severity fs ! k) (js ''approved'') (JBool True)
               | skip \<Rightarrow> set_prop (sort_by_severity fs ! k) (js ''approved'') (JBool False)
               | edit typed \<Rightarrow>
                   set_prop
                     (set_prop (sort_by_severity fs ! k) (js ''body'')
                        (if typed \<noteq> [] then JString typed
                         else (case get_prop (sort_by_severity fs ! k) (js ''body'') of
                                 None \<Rightarrow> JString [] | Some v \<Rightarrow> v)))
                     (js ''approved'') (JBool True)) \<and>
            (\<forall>key. key \<noteq> js ''approved'' \<and> key \<noteq> js ''body'' \<longrightarrow>
               get_prop (findings rf ! k) key = get_prop (sort_by_severity fs ! k) key))"
proof -
  have fr: "findings rf = after_approval w fs"
    by (simp add: assms(8) make_review_file_def)
  from posting_trace [OF assms]
  have first: "\<exists>pre. fst (review_command w) =
            pre @
            [WriteFile (w_cwd w @ js ''/.coder/reviews/pr-'' @ int_to_string (pr_number p) @
                        js ''-review.json'') rf] @
            fst (postReview w rf
                   (filter (\<lambda>f. get_prop f (js ''approved'') = Some (JBool True)) (findings rf))) \<and>
            list_all (\<lambda>e. \<not> host_mutating e) pre"
    by (simp add: fr approved_of_def review_path)
  have second: "length (findings rf) = length fs"
    by (simp add: fr after_approval_def length_decisions length_sort_by_severity)
  have "mset (map (\<lambda>f. get_prop f (js ''id'')) (sort_by_severity fs)) =
      mset (map (\<lambda>f. get_prop f (js ''id'')) fs)"
    using mset_array_sort [of severity_cmp fs] by (metis mset_map sort_by_severity_def)
  then have third: "mset (map (\<lambda>f. get_prop f (js ''id'')) (findings rf)) =
           mset (map (\<lambda>f. get_prop f (js ''id'')) fs)"
    by (simp add: fr after_approval_def ids_decisions)
  have fourth: "\<forall>k < length fs.
            findings rf ! k =
              (case w_action w k of
                 approve \<Rightarrow> set_prop (sort_by_severity fs ! k) (js ''approved'') (JBool True)
               | skip \<Rightarrow> set_prop (sort_by_severity fs ! k) (js ''approved'') (JBool False)
               | edit typed \<Rightarrow>
                   set_prop
                     (set_prop (sort_by_severity fs ! k) (js ''body'')
                        (if typed \<noteq> [] then JString typed
                         else (case get_prop (sort_by_severity fs ! k) (js ''body'') of
                                 None \<Rightarrow> JString [] | Some v \<Rightarrow> v)))
                     (js ''approved'') (JBool True)) \<and>
            (\<forall>key. key \<noteq> js ''approved'' \<and> key \<noteq> js ''body'' \<longrightarrow>
               get_prop (findings rf ! k) key = get_prop (sort_by_severity fs ! k) key)"
    using decisions_nth [of _ "sort_by_severity fs" w 0]
    by (simp add: fr after_approval_def length_sort_by_severity decided_def input_answer_def
          get_prop_decided [unfolded decided_def] split: action.splits)
  from first second third fourth show ?thesis by blast
qed

section \<open>The concrete invocations\<close>

text \<open>The claims above at the worlds of the scenario: each hypothesis holds there, and the
  conclusion is what the run does.\<close>

lemma show_digits_unfold:
  "show_digits k n =
     (if k = 0 then [48 + n mod 10] else if n < 10 then [48 + n]
      else show_digits (k - 1) (n div 10) @ [48 + n mod 10])"
  by (cases k) simp_all

lemma normal_decimal_unfold:
  "normal_decimal m d =
     (if d = 0 then JNumber m else if m mod 10 = 0 then normal_decimal (m div 10) (d - 1)
      else JDecimal m d)"
  by (cases d) simp_all

lemmas number_eval = decimal_def exponent_val_def normal_decimal_unfold int_to_string_def
  show_int_def show_nat_def show_digits_unfold

lemmas format_eval = formatCommentBody_def fallbackCommentBody_def summary_row_def
  formatSummaryBody_def review_payload_of_def inline_comment_of_def capitalize_def
  label_text_def SEVERITY_LABELS_def object_prototype_keys_def template_def get_prop_def

lemmas print_eval = printable_def promptable_def has_tag_def object_prototype_keys_def
  inherited_call_returns_def template_def get_prop_def

lemma normalize_plain:
  assumes "trim t = t" and "\<not> startsWith t (js ''```'')" and "JSON_parse t = Some (JArray xs)"
  shows "normalize t = Inr (map with_approved_null xs)"
  using assms by (simp add: normalize_def unfence_def)

lemma normalize_response1: "normalize response1 = Inr [object1_unknown]"
proof -
  have "trim response1 = response1"
    by (simp add: trim_def response1_def js_def is_space_def)
  moreover have "\<not> startsWith response1 (js ''```'')"
    by (simp add: response1_def js_def startsWith_def)
  moreover have "JSON_parse response1 =
     Some (JArray [JObject
       [(js ''id'', JNumber 1), (js ''severity'', JString (js ''critical'')),
        (js ''confidence'', JNumber 95), (js ''title'', JString (js ''X'')),
        (js ''file'', JString (js ''a.ts'')), (js ''line'', JNumber 3),
        (js ''why'', JString (js ''Y'')), (js ''body'', JString (js ''Z''))]])"
    by (simp add: response1_def js_def json_eval)
  ultimately show ?thesis
    by (simp add: normalize_plain with_approved_null_def obj_set_def is_array_index_def
          is_digit_def js_def object1_unknown_def)
qed

text \<open>The line written \<open>3.0\<close> is the number 3.\<close>

lemma parse_response_info:
  "JSON_parse response_info =
     Some (JArray [JObject
       [(js ''id'', JNumber 3), (js ''severity'', JString (js ''info'')),
        (js ''confidence'', JNumber 70), (js ''title'', JString (js ''N'')),
        (js ''file'', JString (js ''c.ts'')), (js ''line'', JNumber 3),
        (js ''why'', JString (js ''V'')), (js ''body'', JString (js ''C''))]])"
  by (simp add: response_info_def js_def json_eval number_eval)

lemma normalize_response_info: "normalize response_info = Inr [object3_unknown]"
proof -
  have "trim response_info = response_info"
    by (simp add: trim_def response_info_def js_def is_space_def)
  moreover have "\<not> startsWith response_info (js ''```'')"
    by (simp add: response_info_def js_def startsWith_def)
  ultimately show ?thesis
    using parse_response_info
    by (simp add: normalize_plain with_approved_null_def obj_set_def is_array_index_def
          is_digit_def js_def object3_unknown_def)
qed

lemma normalize_response2: "normalize response2 = Inr [object3_unknown, object1_unknown]"
proof -
  have "trim response2 = response2"
    by (simp add: trim_def response2_def js_def is_space_def)
  moreover have "\<not> startsWith response2 (js ''```'')"
    by (simp add: response2_def js_def startsWith_def)
  moreover have "JSON_parse response2 =
     Some (JArray
      [JObject
        [(js ''id'', JNumber 3), (js ''severity'', JString (js ''info'')),
         (js ''confidence'', JNumber 70), (js ''title'', JString (js ''N'')),
         (js ''file'', JString (js ''c.ts'')), (js ''line'', JNumber 3),
         (js ''why'', JString (js ''V'')), (js ''body'', JString (js ''C''))],
       JObject
        [(js ''id'', JNumber 1), (js ''severity'', JString (js ''critical'')),
         (js ''confidence'', JNumber 95), (js ''title'', JString (js ''X'')),
         (js ''file'', JString (js ''a.ts'')), (js ''line'', JNumber 3),
         (js ''why'', JString (js ''Y'')), (js ''body'', JString (js ''Z''))]])"
    by (simp add: response2_def js_def json_eval number_eval)
  ultimately show ?thesis
    by (simp add: normalize_plain with_approved_null_def obj_set_def is_array_index_def
          is_digit_def js_def object3_unknown_def object1_unknown_def)
qed

lemma analyze_text:
  "w_ai_reply w = ApiContent [TextBlock t] \<Longrightarrow> normalize t = Inr vs \<Longrightarrow>
   snd (analyze w d g c) = Inr vs"
  by (simp add: analyze_def reviewWithAI_def)

lemma printable_objects:
  "printable object1_unknown" "printable object3_unknown"
  by (simp_all add: print_eval object1_unknown_def object3_unknown_def js_def)

lemma resolvePR_42:
  assumes "w_gh_auth_ok w" and "w_prArg w = Some (js ''42'')" and "w_pr_view w 42 = Some info42"
    and "w_git_repo w = Some (js ''o/r'')"
  shows "resolvePR w =
    ([HostRead gh_auth_status, HostRead (gh_pr_view 42), HostRead git_remote_get_url], Inr pr42)"
proof -
  have "first_digits (js ''42'') = js ''42''"
    by (simp add: first_digits_def js_def is_digit_def)
  moreover have "digits_val (js ''42'') = 42"
    by (simp add: digits_val_def js_def)
  moreover have "js ''42'' \<noteq> []" by (simp add: js_def)
  ultimately show ?thesis
    using assms
    by (simp add: resolvePR_def resolve_by_number_def getPRInfo_def detectRepo_def bind_run_def
          do_event_def return_run_def truthy_def Let_def pr42_def info42_def)
qed

lemma world0_fields:
  "w_gh_auth_ok world0" "w_prArg world0 = Some (js ''42'')" "w_pr_view world0 42 = Some info42"
  "w_git_repo world0 = Some (js ''o/r'')" "w_anthropicApiKey world0 = Some (js ''sk'')"
  "w_git_diff world0 = Some (js ''+x'')" "w_git_diff_stat world0 = Some (js ''a.ts | 1 +'')"
  "w_ai_reply world0 = ApiContent [TextBlock response1]" "w_post world0" "w_write_ok world0"
  "w_confirm_post world0" "w_review_reply world0 = None" "w_action world0 = (\<lambda>k. approve)"
  "w_cwd world0 = js ''/p''" "w_now world0 = js ''2026-01-01T00:00:00.000Z''"
  by (simp_all add: world0_def)

lemma reaches_report_42:
  assumes "w_gh_auth_ok w" and "w_prArg w = Some (js ''42'')" and "w_pr_view w 42 = Some info42"
    and "w_git_repo w = Some (js ''o/r'')" and "w_anthropicApiKey w = Some (js ''sk'')"
    and "w_git_diff w = Some (js ''+x'')" and "w_git_diff_stat w = Some (js ''a.ts | 1 +'')"
    and "w_ai_reply w = ApiContent [TextBlock t]" and "normalize t = Inr fs"
    and "fs \<noteq> []" and "list_all printable fs"
  shows "reaches_report w pr42 fs"
proof -
  have "trim (js ''+x'') \<noteq> []"
    by (simp add: trim_def js_def is_space_def)
  moreover have "truthy (Some (js ''sk''))" by (simp add: truthy_def js_def)
  ultimately show ?thesis
    using assms resolvePR_42 [OF assms(1-4)] analyze_text [OF assms(8,9)]
    by (simp add: reaches_report_def)
qed

lemma sort_single: "sort_by_severity [f] = [f]"
  by (simp add: sort_by_severity_def array_sort_def)

lemma path_42: "js ''/p'' @ js ''/.coder/reviews/pr-'' @ int_to_string 42 @ js ''-review.json'' =
    js ''/p/.coder/reviews/pr-42-review.json''"
  by (simp add: js_def number_eval)

lemma determine_repo_42: "determine_repo w pr42 = ([], Inr (js ''o/r''))"
  by (simp add: determine_repo_def pr42_def return_run_def js_def)

lemma decided_objects:
  "decided approve object1_unknown = object1_true"
  "decided skip object1_unknown = object1_skipped"
  "decided approve object3_unknown = object3_true"
  "decided skip object3_unknown = object3_skipped"
  "decided (edit (js ''E'')) object3_unknown = object3_edited"
  by (simp_all add: decided_def set_prop_def obj_set_def input_answer_def get_prop_def
        object1_unknown_def object1_true_def object1_skipped_def object3_unknown_def
        object3_true_def object3_skipped_def object3_edited_def js_def)

text \<open>The finding of severity \<open>info\<close> is reported and prompted as any other; skipped by the
  operator, nothing is approved.\<close>

lemma reaches_skip: "reaches_report world_skip pr42 [object3_unknown]"
  by (rule reaches_report_42 [OF _ _ _ _ _ _ _ _ normalize_response_info])
     (simp_all add: world_skip_def world_info_def world0_fields printable_objects)

theorem C8_witness:
  "reaches_report world_skip pr42 [object3_unknown] \<and> w_post world_skip \<and>
   approved_of (after_approval world_skip [object3_unknown]) = [] \<and>
   snd (review_command world_skip) = Exit0 NothingApproved \<and>
   list_all (\<lambda>e. \<not> host_mutating e \<and> \<not> touches_disk e) (fst (review_command world_skip))"
proof -
  have p: "w_post world_skip" by (simp add: world_skip_def world_info_def world0_fields)
  have a: "approved_of (after_approval world_skip [object3_unknown]) = []"
    by (simp add: approved_of_def after_approval_def sort_single decided_objects world_skip_def)
       (simp add: get_prop_def object3_skipped_def js_def)
  from C8_nothing_approved [OF reaches_skip p a] reaches_skip p a show ?thesis
    by (simp add: list_all_iff)
qed

lemma reaches_cancel: "reaches_report world_cancel pr42 [object3_unknown]"
  by (rule reaches_report_42 [OF _ _ _ _ _ _ _ _ normalize_response_info])
     (simp_all add: world_cancel_def world_info_def world0_fields printable_objects)

theorem C10_witness:
  "reaches_report world_cancel pr42 [object3_unknown] \<and> w_post world_cancel \<and>
   approved_of (after_approval world_cancel [object3_unknown]) = [object3_true] \<and>
   \<not> w_confirm_post world_cancel \<and>
   snd (review_command world_cancel) = Exit0 Cancelled \<and>
   list_all (\<lambda>e. \<not> host_mutating e \<and> \<not> touches_disk e) (fst (review_command world_cancel))"
proof -
  have p: "w_post world_cancel" by (simp add: world_cancel_def world_info_def world0_fields)
  have a: "approved_of (after_approval world_cancel [object3_unknown]) = [object3_true]"
    by (simp add: approved_of_def after_approval_def sort_single decided_objects world_cancel_def
          world_info_def world0_fields)
       (simp add: get_prop_def object3_true_def js_def)
  then have a': "approved_of (after_approval world_cancel [object3_unknown]) \<noteq> []" by simp
  have c: "\<not> w_confirm_post world_cancel" by (simp add: world_cancel_def)
  from C10_cancel_leaves_no_trace [OF reaches_cancel p a' c] reaches_cancel p a c show ?thesis
    by (simp add: list_all_iff)
qed

theorem C7_witness:
  "w_git_diff world_blank = Some [32, 10] \<and> trim [32, 10] = [] \<and>
   snd (review_command world_blank) = Exit0 NothingToReview \<and>
   list_all (\<lambda>e. \<not> is_generation e) (fst (review_command world_blank))"
proof -
  have d: "w_git_diff world_blank = Some [32, 10]" by (simp add: world_blank_def)
  have t: "trim [32, 10] = []" by (simp add: trim_def is_space_def)
  have k: "truthy (w_anthropicApiKey world_blank)"
    by (simp add: world_blank_def world0_fields truthy_def js_def)
  have r: "snd (resolvePR world_blank) = Inr pr42"
    using resolvePR_42 [of world_blank] by (simp add: world_blank_def world0_fields)
  have s: "w_git_diff_stat world_blank = Some (js ''a.ts | 1 +'')"
    by (simp add: world_blank_def world0_fields)
  from C7_empty_diff_skips_generation [OF d t, of pr42 "js ''a.ts | 1 +''"] d t k r s
  show ?thesis by (simp add: list_all_iff)
qed

lemma formats_objects:
  "formatCommentBody object1_true = Some comment1"
  "fallbackCommentBody object1_true = Some flat1"
  "formatCommentBody object3_edited = Some comment3"
  "fallbackCommentBody object3_edited = Some flat3"
  by (simp_all add: format_eval number_eval object1_true_def object3_edited_def comment1_def
        comment3_def flat1_def flat3_def js_def)

lemma payload_review0: "review_payload_of review0 [object1_true] = Some payload0"
  by (simp add: format_eval number_eval object1_true_def review0_def payload0_def summary0_def
        comment1_def js_def)

lemma payload_review_both:
  "review_payload_of review_both [object1_true, object3_edited] = Some payload_both"
  by (simp add: format_eval number_eval object1_true_def object3_edited_def review_both_def
        payload_both_def summary_both_def comment1_def comment3_def js_def)

lemma repo_review0: "repo_owner review0 = js ''o''" "repo_name review0 = js ''r''" "pr review0 = 42"
  by (simp_all add: repo_owner_def repo_name_def review0_def js_def)

lemma repo_review_both:
  "repo_owner review_both = js ''o''" "repo_name review_both = js ''r''" "pr review_both = 42"
  by (simp_all add: repo_owner_def repo_name_def review_both_def js_def)

lemma anchor_422: "anchor_failure (js ''gh: Validation Failed (HTTP 422)'')"
  by (simp add: anchor_failure_def js_def startsWith_def)

lemma anchor_thread:
  "anchor_failure (js ''gh: pull_request_review_thread.line must be part of the diff'')"
  by (simp add: anchor_failure_def js_def startsWith_def)

lemma not_anchor_502: "\<not> anchor_failure (js ''gh: HTTP 502'')"
  by (simp add: anchor_failure_def js_def startsWith_def)

text \<open>C1 where the generator returned the finding of severity \<open>info\<close> and the host is down:
  the only host call is the review that fails, the last event of the run, and the record
  of pull request 42 is in \<open>/p/.coder/reviews/pr-42-review.json\<close> before it.\<close>

lemma reaches_info: "reaches_report world_info pr42 [object3_unknown]"
  by (rule reaches_report_42 [OF _ _ _ _ _ _ _ _ normalize_response_info])
     (simp_all add: world_info_def world0_fields printable_objects)

theorem C1_witness:
  "\<exists>pre e. fst (review_command world_info) = pre @ e # [] \<and> host_mutating e \<and>
     snd (resolvePR world_info) = Inr pr42 \<and>
     (\<exists>rf. pr rf = 42 \<and> WriteFile (js ''/p/.coder/reviews/pr-42-review.json'') rf \<in> set pre)"
proof -
  define rf where "rf = make_review_file world_info pr42 (js ''o/r'')
    (sort_by_severity [object3_unknown]) (after_approval world_info [object3_unknown])"
  have f: "w_post world_info" "w_confirm_post world_info" "w_write_ok world_info"
    "w_review_reply world_info = Some (js ''gh: HTTP 502'')" "w_cwd world_info = js ''/p''"
    by (simp_all add: world_info_def world0_fields)
  have ap: "approved_of (after_approval world_info [object3_unknown]) = [object3_true]"
    by (simp add: approved_of_def after_approval_def sort_single decided_objects world_info_def
          world0_fields)
       (simp add: get_prop_def object3_true_def js_def)
  then have a: "approved_of (after_approval world_info [object3_unknown]) \<noteq> []" by simp
  have nz: "js ''o/r'' \<noteq> []" by (simp add: js_def)
  have r: "snd (resolvePR world_info) = Inr pr42"
    using resolvePR_42 [of world_info] by (simp add: world_info_def world0_fields)
  from posting_trace [OF reaches_info f(1,2) a _ nz f(3) rf_def]
  obtain pre where
    tr: "fst (review_command world_info) =
           pre @ [WriteFile (reviewPath world_info (pr_number pr42)) rf] @
           fst (postReview world_info rf [object3_true])"
    by (auto simp: determine_repo_42 ap)
  obtain payload where pl: "review_payload_of rf [object3_true] = Some payload"
    by (simp add: format_eval number_eval object3_true_def js_def)
  let ?e = "HostWrite (gh_api_create_review (repo_owner rf) (repo_name rf) (pr rf) payload)
      (Some (js ''gh: HTTP 502''))"
  have post: "fst (postReview world_info rf [object3_true]) = [?e]"
    by (simp add: postReview_def Let_def pl f(4) not_anchor_502 fst_bind_run)
  have split: "fst (review_command world_info) =
      (pre @ [WriteFile (reviewPath world_info (pr_number pr42)) rf]) @ ?e # []"
    by (simp add: tr post)
  have m: "host_mutating ?e" by simp
  have n: "pr_number pr42 = 42" by (simp add: pr42_def)
  from C1_record_written_before_delivery [OF split m] r
  have "\<exists>rf'. pr rf' = 42 \<and> WriteFile (js ''/p/.coder/reviews/pr-42-review.json'') rf'
      \<in> set (pre @ [WriteFile (reviewPath world_info (pr_number pr42)) rf])"
    by (simp add: n f(5) path_42)
  with split m r show ?thesis by blast
qed

lemma sort_two:
  "sort_by_severity [object3_unknown, object1_unknown] = [object1_unknown, object3_unknown]"
  by (simp add: sort_by_severity_def array_sort_def severity_cmp_def order_of_def
        SEVERITY_ORDER_def object_prototype_keys_def template_def get_prop_def
        object1_unknown_def object3_unknown_def js_def)

lemma reaches_two: "reaches_report world_two pr42 [object3_unknown, object1_unknown]"
  by (rule reaches_report_42 [OF _ _ _ _ _ _ _ _ normalize_response2])
     (simp_all add: world_two_def world0_fields printable_objects)

lemma after_approval_two:
  "after_approval world_two [object3_unknown, object1_unknown] = [object1_skipped, object3_edited]"
  by (simp add: after_approval_def sort_two decided_objects world_two_def)

lemma approved_two: "approved_of [object1_skipped, object3_edited] = [object3_edited]"
  by (simp add: approved_of_def get_prop_def object1_skipped_def object3_edited_def js_def)

lemma review_two_made:
  "make_review_file world_two pr42 (js ''o/r'') [object1_unknown, object3_unknown]
     [object1_skipped, object3_edited] = review_two"
  by (simp add: make_review_file_def review_two_def summary_line_def count_severity_def
        has_severity_def get_prop_def object1_unknown_def object3_unknown_def pr42_def
        world_two_def world0_fields show_nat_def show_digits_unfold js_def)

text \<open>C9 where the operator skips the critical finding and edits the one of severity
  \<open>info\<close>: the record holds both, the delivery gets the edited one.\<close>

theorem C9_witness:
  "reaches_report world_two pr42 [object3_unknown, object1_unknown] \<and>
   after_approval world_two [object3_unknown, object1_unknown] =
     [object1_skipped, object3_edited] \<and>
   findings review_two = [object1_skipped, object3_edited] \<and>
   (\<exists>pre. fst (review_command world_two) =
      pre @ [WriteFile (js ''/p/.coder/reviews/pr-42-review.json'') review_two] @
      fst (postReview world_two review_two [object3_edited]) \<and>
      list_all (\<lambda>e. \<not> host_mutating e) pre)"
proof -
  have p: "w_post world_two" and c: "w_confirm_post world_two" and ok: "w_write_ok world_two"
    and cwd: "w_cwd world_two = js ''/p''"
    by (simp_all add: world_two_def world0_fields)
  have a: "approved_of (after_approval world_two [object3_unknown, object1_unknown]) \<noteq> []"
    by (simp add: after_approval_two approved_two)
  have nz: "js ''o/r'' \<noteq> []" by (simp add: js_def)
  have r: "snd (determine_repo world_two pr42) = Inr (js ''o/r'')"
    by (simp add: determine_repo_42)
  have rf: "review_two = make_review_file world_two pr42 (js ''o/r'')
      (sort_by_severity [object3_unknown, object1_unknown])
      (after_approval world_two [object3_unknown, object1_unknown])"
    by (simp add: sort_two after_approval_two review_two_made)
  have f: "findings review_two = [object1_skipped, object3_edited]"
    by (simp add: review_two_def)
  have n: "pr_number pr42 = 42" by (simp add: pr42_def)
  from C9_record_holds_all_delivery_gets_approved [OF reaches_two p c a r nz ok rf]
  have "\<exists>pre. fst (review_command world_two) =
      pre @ [WriteFile (js ''/p/.coder/reviews/pr-42-review.json'') review_two] @
      fst (postReview world_two review_two [object3_edited]) \<and>
      list_all (\<lambda>e. \<not> host_mutating e) pre"
    using approved_two [unfolded approved_of_def] by (simp add: f n cwd path_42)
  with reaches_two after_approval_two f show ?thesis by blast
qed

text \<open>C3 where the first flat comment of two fails: the second is attempted, and
  succeeds.\<close>

theorem C3_witness:
  "w_review_reply world_anchor = Some (js ''gh: Validation Failed (HTTP 422)'') \<and>
   anchor_failure (js ''gh: Validation Failed (HTTP 422)'') \<and>
   review_payload_of review_both [object1_true, object3_edited] = Some payload_both \<and>
   snd (postReview (world_anchor\<lparr>w_comment_ok := (\<lambda>k. k \<noteq> 1)\<rparr>) review_both
          [object1_true, object3_edited]) = Inr () \<and>
   attempted (fst (postReview (world_anchor\<lparr>w_comment_ok := (\<lambda>k. k \<noteq> 1)\<rparr>) review_both
          [object1_true, object3_edited])) =
     [gh_api_create_review (js ''o'') (js ''r'') 42 payload_both,
      gh_pr_comment 42 (js ''o'') (js ''r'') summary_both,
      gh_pr_comment 42 (js ''o'') (js ''r'') flat1,
      gh_pr_comment 42 (js ''o'') (js ''r'') flat3] \<and>
   fst (postReview (world_anchor\<lparr>w_comment_ok := (\<lambda>k. k \<noteq> 1)\<rparr>) review_both
          [object1_true, object3_edited]) ! 2 =
     HostWrite (gh_pr_comment 42 (js ''o'') (js ''r'') flat1) (Some (js ''Command failed'')) \<and>
   fst (postReview (world_anchor\<lparr>w_comment_ok := (\<lambda>k. k \<noteq> 1)\<rparr>) review_both
          [object1_true, object3_edited]) ! 3 =
     HostWrite (gh_pr_comment 42 (js ''o'') (js ''r'') flat3) None"
proof -
  let ?run = "postReview (world_anchor\<lparr>w_comment_ok := (\<lambda>k. k \<noteq> 1)\<rparr>) review_both
          [object1_true, object3_edited]"
  have r: "w_review_reply world_anchor = Some (js ''gh: Validation Failed (HTTP 422)'')"
    by (simp add: world_anchor_def)
  from C3_fallback_best_effort [OF r anchor_422 payload_review_both, of "\<lambda>k. k \<noteq> 1"]
  obtain summaryBody bodies where
    s: "formatSummaryBody review_both [object1_true, object3_edited] = Some summaryBody" and
    b: "map fallbackCommentBody [object1_true, object3_edited] = map Some bodies" and
    out: "snd ?run = Inr ()" and
    att0: "attempted (fst ?run) =
      gh_api_create_review (repo_owner review_both) (repo_name review_both) (pr review_both)
        payload_both
      # gh_pr_comment (pr review_both) (repo_owner review_both) (repo_name review_both) summaryBody
      # map (gh_pr_comment (pr review_both) (repo_owner review_both) (repo_name review_both))
          bodies" and
    all0: "\<forall>j < length [object1_true, object3_edited]. fst ?run ! (j + 2) =
      HostWrite (gh_pr_comment (pr review_both) (repo_owner review_both) (repo_name review_both)
                   (bodies ! j))
        (if j + 1 \<noteq> 1 then None else Some (js ''Command failed''))"
    by blast
  from att0 have att: "attempted (fst ?run) =
      gh_api_create_review (js ''o'') (js ''r'') 42 payload_both
      # gh_pr_comment 42 (js ''o'') (js ''r'') summaryBody
      # map (gh_pr_comment 42 (js ''o'') (js ''r'')) bodies"
    by (simp add: repo_review_both)
  from all0 have all: "\<forall>j < 2. fst ?run ! (j + 2) =
      HostWrite (gh_pr_comment 42 (js ''o'') (js ''r'') (bodies ! j))
        (if j + 1 \<noteq> 1 then None else Some (js ''Command failed''))"
    by (simp add: repo_review_both)
  from payload_review_both s have sb: "summaryBody = summary_both"
    by (simp add: review_payload_of_def payload_both_def split: option.splits)
  from b have bs: "bodies = [flat1, flat3]"
    by (cases bodies; cases "tl bodies") (auto simp: formats_objects)
  have j0: "fst ?run ! 2 =
     HostWrite (gh_pr_comment 42 (js ''o'') (js ''r'') flat1) (Some (js ''Command failed''))"
    using all [rule_format, of 0] by (simp add: numeral_2_eq_2 bs)
  have j1: "fst ?run ! 3 = HostWrite (gh_pr_comment 42 (js ''o'') (js ''r'') flat3) None"
    using all [rule_format, of 1] by (simp add: numeral_3_eq_3 bs)
  from att have att': "attempted (fst ?run) =
     [gh_api_create_review (js ''o'') (js ''r'') 42 payload_both,
      gh_pr_comment 42 (js ''o'') (js ''r'') summary_both,
      gh_pr_comment 42 (js ''o'') (js ''r'') flat1,
      gh_pr_comment 42 (js ''o'') (js ''r'') flat3]"
    by (simp add: sb bs)
  from r anchor_422 payload_review_both out att' j0 j1 show ?thesis by blast
qed

text \<open>C4 where the host is down (the review fails with no anchor-validation signature:
  exit code 1, one host call) and where the review fails with that signature, in either
  wording.\<close>

theorem C4_witness:
  "w_review_reply world_down = Some (js ''gh: HTTP 502'') \<and>
   \<not> anchor_failure (js ''gh: HTTP 502'') \<and>
   review_payload_of review0 [object1_true] = Some payload0 \<and>
   snd (postReview world_down review0 [object1_true]) =
     Inl (Exit1 (PostingFailed (js ''gh: HTTP 502''))) \<and>
   attempted (fst (postReview world_down review0 [object1_true])) =
     [gh_api_create_review (js ''o'') (js ''r'') 42 payload0] \<and>
   w_review_reply world_anchor = Some (js ''gh: Validation Failed (HTTP 422)'') \<and>
   anchor_failure (js ''gh: Validation Failed (HTTP 422)'') \<and>
   snd (postReview world_anchor review0 [object1_true]) = Inr () \<and>
   w_review_reply world_thread =
     Some (js ''gh: pull_request_review_thread.line must be part of the diff'') \<and>
   anchor_failure (js ''gh: pull_request_review_thread.line must be part of the diff'') \<and>
   snd (postReview world_thread review0 [object1_true]) = Inr ()"
proof -
  have r: "w_review_reply world_down = Some (js ''gh: HTTP 502'')"
    by (simp add: world_down_def)
  have r'': "w_review_reply world_thread =
      Some (js ''gh: pull_request_review_thread.line must be part of the diff'')"
    by (simp add: world_thread_def)
  have r': "w_review_reply world_anchor = Some (js ''gh: Validation Failed (HTTP 422)'')"
    by (simp add: world_anchor_def)
  from C4_fatal_iff_unclassified_primary_failure [of world_down review0
      "[object1_true]" "Exit1 (PostingFailed (js ''gh: HTTP 502''))"]
    C4_fatal_iff_unclassified_primary_failure [of world_anchor review0
      "[object1_true]" "Exit1 (PostingFailed (js ''gh: HTTP 502''))"]
    C4_fatal_iff_unclassified_primary_failure [of world_thread review0
      "[object1_true]" "Exit1 (PostingFailed (js ''gh: HTTP 502''))"]
    r r' r'' not_anchor_502 anchor_422 anchor_thread payload_review0
  show ?thesis by (simp add: repo_review0)
qed

lemma reaches_anchor: "reaches_report world_anchor pr42 [object1_unknown]"
  by (rule reaches_report_42 [OF _ _ _ _ _ _ _ _ normalize_response1])
     (simp_all add: world_anchor_def world0_fields printable_objects)

lemma review0_made:
  "make_review_file world_anchor pr42 (js ''o/r'') [object1_unknown] [object1_true] = review0"
  by (simp add: make_review_file_def review0_def summary_line_def count_severity_def
        has_severity_def get_prop_def object1_unknown_def pr42_def
        world_anchor_def world0_fields show_nat_def show_digits_unfold js_def)

text \<open>
  The claim C4 as stated fails: in \<open>world_anchor\<close> the primary submission fails, the fallback
  is attempted and delivers nothing (the summary comment and the comment of the finding
  both fail), and yet \<open>postReview\<close> returns and the command ends with exit code 0.
\<close>

theorem C4_counterexample:
  "fst (postReview world_anchor review0 [object1_true]) =
     [HostWrite (gh_api_create_review (js ''o'') (js ''r'') 42 payload0)
        (Some (js ''gh: Validation Failed (HTTP 422)'')),
      HostWrite (gh_pr_comment 42 (js ''o'') (js ''r'') summary0) (Some (js ''Command failed'')),
      HostWrite (gh_pr_comment 42 (js ''o'') (js ''r'') flat1) (Some (js ''Command failed''))] \<and>
   \<not> list_ex delivered (fst (postReview world_anchor review0 [object1_true])) \<and>
   snd (postReview world_anchor review0 [object1_true]) = Inr () \<and>
   \<not> list_ex delivered (fst (review_command world_anchor)) \<and>
   snd (review_command world_anchor) = Exit0 Posted"
proof -
  have r: "w_review_reply world_anchor = Some (js ''gh: Validation Failed (HTTP 422)'')"
    by (simp add: world_anchor_def)
  have k: "\<And>k. comment_reply world_anchor k = Some (js ''Command failed'')"
    by (simp add: comment_reply_def world_anchor_def)
  from payload_review0 have sm: "formatSummaryBody review0 [object1_true] = Some summary0"
    by (simp add: review_payload_of_def payload0_def split: option.splits)
  have post: "postReview world_anchor review0 [object1_true] =
      ([HostWrite (gh_api_create_review (js ''o'') (js ''r'') 42 payload0)
          (Some (js ''gh: Validation Failed (HTTP 422)'')),
        HostWrite (gh_pr_comment 42 (js ''o'') (js ''r'') summary0) (Some (js ''Command failed'')),
        HostWrite (gh_pr_comment 42 (js ''o'') (js ''r'') flat1) (Some (js ''Command failed''))],
       Inr ())"
    by (simp add: postReview_def Let_def r anchor_422 k payload_review0 sm formats_objects
          repo_review0 bind_run_def do_event_def return_run_def)
  have p: "w_post world_anchor" and c: "w_confirm_post world_anchor" and ok: "w_write_ok world_anchor"
    and act: "w_action world_anchor = (\<lambda>k. approve)"
    by (simp_all add: world_anchor_def world0_fields)
  have aa: "after_approval world_anchor [object1_unknown] = [object1_true]"
    by (simp add: after_approval_def sort_single decided_objects act)
  have ap: "approved_of (after_approval world_anchor [object1_unknown]) = [object1_true]"
    by (simp add: aa approved_of_def get_prop_def object1_true_def js_def)
  then have a: "approved_of (after_approval world_anchor [object1_unknown]) \<noteq> []" by simp
  have nz: "js ''o/r'' \<noteq> []" by (simp add: js_def)
  have dr: "snd (determine_repo world_anchor pr42) = Inr (js ''o/r'')"
    by (simp add: determine_repo_42)
  have rf: "review0 = make_review_file world_anchor pr42 (js ''o/r'')
      (sort_by_severity [object1_unknown]) (after_approval world_anchor [object1_unknown])"
    by (simp add: sort_single aa review0_made)
  from posting_outcome [OF reaches_anchor p c a dr nz ok rf]
  have out: "snd (review_command world_anchor) = Exit0 Posted"
    by (simp add: ap post)
  from posting_trace [OF reaches_anchor p c a dr nz ok rf] obtain pre where
    tr: "fst (review_command world_anchor) =
           pre @ [WriteFile (reviewPath world_anchor (pr_number pr42)) review0] @
           fst (postReview world_anchor review0
                  (approved_of (after_approval world_anchor [object1_unknown])))"
    and q: "list_all (\<lambda>e. \<not> host_mutating e) pre"
    by auto
  have "\<not> list_ex delivered pre"
  proof -
    have "\<And>e. \<not> host_mutating e \<Longrightarrow> \<not> delivered e"
      by (case_tac e) simp_all
    with q show ?thesis by (auto simp: list_all_iff list_ex_iff)
  qed
  then have nd: "\<not> list_ex delivered (fst (review_command world_anchor))"
    by (simp add: tr ap post list_ex_iff)
  from out nd show ?thesis
    by (simp add: post)
qed

text \<open>C5 at three findings, the one of severity \<open>info\<close> first and the critical one
  last.\<close>

theorem C5_witness:
  "list_all (\<lambda>f. order_of f \<noteq> None) [object3_unknown, object2_unknown, object1_unknown] \<and>
   has_severity ''critical'' object1_unknown \<and> order_of object1_unknown = Some 0 \<and>
   has_severity ''warning'' object2_unknown \<and> order_of object2_unknown = Some 1 \<and>
   order_of object3_unknown = Some 99 \<and>
   sorted_wrt (\<lambda>a b. the (order_of a) \<le> the (order_of b))
     (sort_by_severity [object3_unknown, object2_unknown, object1_unknown]) \<and>
   sort_by_severity [object3_unknown, object2_unknown, object1_unknown] =
     [object1_unknown, object2_unknown, object3_unknown]"
proof -
  have h: "has_severity ''critical'' object1_unknown" "has_severity ''warning'' object2_unknown"
    by (simp_all add: has_severity_def get_prop_def object1_unknown_def object2_unknown_def js_def)
  have o3: "order_of object3_unknown = Some 99"
    by (simp add: order_of_def SEVERITY_ORDER_def object_prototype_keys_def template_def
          get_prop_def object3_unknown_def js_def)
  have s: "sort_by_severity [object3_unknown, object2_unknown, object1_unknown] =
     [object1_unknown, object2_unknown, object3_unknown]"
    by (simp add: sort_by_severity_def array_sort_def severity_cmp_def order_of_def
          SEVERITY_ORDER_def object_prototype_keys_def template_def get_prop_def
          object1_unknown_def object2_unknown_def object3_unknown_def js_def)
  from C5_sort_stable_total [of "[object3_unknown, object2_unknown, object1_unknown]"] h o3 s
  show ?thesis by simp
qed

text \<open>A severity that is no string ends the report with a TypeError (\<open>charAt\<close> is no
  function of a number): the run stops after the generation call, before any prompt.\<close>

lemma report_type_error:
  "review_command world_number =
     ([HostRead gh_auth_status, HostRead (gh_pr_view 42), HostRead git_remote_get_url,
       HostRead (git_fetch_pr 42), HostRead (git_diff (js ''main'') 42),
       HostRead (git_diff_stat (js ''main'') 42),
       Generate (loadGuidelines world_number) (js ''+x'') (js ''a.ts | 1 +'')],
      Uncaught)"
proof -
  have t: "trim response_number = response_number"
    by (simp add: trim_def response_number_def js_def is_space_def)
  have s: "\<not> startsWith response_number (js ''```'')"
    by (simp add: response_number_def js_def startsWith_def)
  have p: "JSON_parse response_number =
      Some (JArray [JObject [(js ''id'', JNumber 1), (js ''severity'', JNumber 7)]])"
    by (simp add: response_number_def js_def json_eval)
  have n: "normalize response_number =
      Inr [JObject [(js ''id'', JNumber 1), (js ''severity'', JNumber 7), (js ''approved'', JNull)]]"
    using normalize_plain [OF t s p]
    by (simp add: with_approved_null_def obj_set_def is_array_index_def is_digit_def js_def)
  have a: "analyze world_number d g c =
      ([Generate g d c],
       Inr [JObject [(js ''id'', JNumber 1), (js ''severity'', JNumber 7), (js ''approved'', JNull)]])"
    for d g c
    by (simp add: analyze_def reviewWithAI_def world_number_def n)
  have r: "resolvePR world_number =
      ([HostRead gh_auth_status, HostRead (gh_pr_view 42), HostRead git_remote_get_url], Inr pr42)"
    by (rule resolvePR_42) (simp_all add: world_number_def world0_fields)
  have d: "trim (js ''+x'') \<noteq> []" "truncate_diff (js ''+x'') = js ''+x''"
    by (simp_all add: trim_def js_def is_space_def truncate_diff_def maxDiffChars_def)
  have k: "truthy (w_anthropicApiKey world_number)"
    by (simp add: world_number_def world0_fields truthy_def js_def)
  have np: "\<not> printable (JObject [(js ''id'', JNumber 1), (js ''severity'', JNumber 7),
      (js ''approved'', JNull)])"
    by (simp add: print_eval js_def)
  have f: "w_git_diff world_number = Some (js ''+x'')"
    "w_git_diff_stat world_number = Some (js ''a.ts | 1 +'')"
    by (simp_all add: world_number_def world0_fields)
  show ?thesis
    using k d np
    by (simp add: review_command_def r review_pr_def Let_def getPRDiff_def getChangedFiles_def f a
          bind_run_def finish_def stop_run_def return_run_def sort_findings_def sort_single
          printFindings_def pr42_def)
qed

end
